theory Spec2Isabelle
  imports Complex_Main
begin

section \<open>Session control of the perfusion-reactor FMU: data model\<close>

text \<open>
  The script \<^verbatim>\<open>BPL_STEM_AIR_Perfusion_explore.py\<close> keeps its session in module-level
  globals (\<^verbatim>\<open>parDict\<close>, \<^verbatim>\<open>parLocation\<close>, \<^verbatim>\<open>stateDict\<close>, \<^verbatim>\<open>prevFinalTime\<close>,
  \<^verbatim>\<open>simulationTime\<close>, \<^verbatim>\<open>model\<close>) and drives an FMU through PyFMI. The FMU is an
  external collaborator: here it is a parameter of the model (an oracle over the calls made
  so far), and every call the script makes to it is recorded in a log.
\<close>

subsection \<open>Python values and dictionaries\<close>

text \<open>
  The values a parameter or a state can hold. \<open>NpNan\<close> is the one float object that numpy
  exports as \<^verbatim>\<open>np.nan\<close>; \<open>OtherNan\<close> is any other float object holding a NaN
  (\<^verbatim>\<open>float('nan')\<close>, \<^verbatim>\<open>math.nan\<close>, the result of a computation). The two differ for
  Python's \<^verbatim>\<open>in\<close>, which compares by identity first and by \<^verbatim>\<open>==\<close> second, and a NaN is
  not \<^verbatim>\<open>==\<close> to anything. \<open>Obj\<close> is any other object, compared by identity.
\<close>

datatype pyval = Num real | NpNan | OtherNan | PyNone | Str string | Obj nat

text \<open>
  A Python \<^verbatim>\<open>dict\<close> keeps its keys in insertion order: an association list whose keys are
  distinct. \<^verbatim>\<open>d[k] = v\<close> overwrites the value of a key in place and appends a new key.
\<close>

type_synonym 'v dict = "(string \<times> 'v) list"

fun setitem :: "string \<Rightarrow> 'v \<Rightarrow> 'v dict \<Rightarrow> 'v dict" where
  "setitem k v [] = [(k, v)]"
| "setitem k v ((k', v') # d) = (if k' = k then (k, v) # d else (k', v') # setitem k v d)"

definition keys :: "'v dict \<Rightarrow> string list" where
  "keys d = map fst d"

definition getitem :: "'v dict \<Rightarrow> string \<Rightarrow> 'v option" where
  "getitem d k = map_of d k"

text \<open>\<^verbatim>\<open>d.update(e)\<close>: every item of \<open>e\<close>, in order, is stored into \<open>d\<close>.\<close>

fun update :: "'v dict \<Rightarrow> 'v dict \<Rightarrow> 'v dict" where
  "update d [] = d"
| "update d ((k, v) # e) = update (setitem k v d) e"

subsection \<open>Python string slices\<close>

text \<open>
  Names are ASCII identifiers of the Modelica model, one \<open>char\<close> per character.
  \<^verbatim>\<open>s[-n:]\<close> and \<^verbatim>\<open>s[:-n]\<close> never fail (a short string gives the whole string, or the
  empty one); \<^verbatim>\<open>s[-n]\<close> raises \<^verbatim>\<open>IndexError\<close> on a string shorter than \<open>n\<close>.
\<close>

definition tail_slice :: "nat \<Rightarrow> string \<Rightarrow> string" where
  "tail_slice n s = drop (length s - n) s"

definition head_slice :: "nat \<Rightarrow> string \<Rightarrow> string" where
  "head_slice n s = take (length s - n) s"

definition char_from_end :: "nat \<Rightarrow> string \<Rightarrow> char option" where
  "char_from_end n s = (if 0 < n \<and> n \<le> length s then Some (s ! (length s - n)) else None)"

subsection \<open>From a state name to the location of its initial value\<close>

text \<open>
  The body of the loop over \<^verbatim>\<open>stateDict.keys()\<close> in \<^verbatim>\<open>simu\<close> (mode \<^verbatim>\<open>cont\<close>), without the
  call of \<^verbatim>\<open>model.set\<close>: which location the value of state \<open>key\<close> is written to.
  \<open>Unsupported\<close> is the last \<^verbatim>\<open>else\<close> (the message about more than 1000 states and the
  \<^verbatim>\<open>break\<close>); \<open>BadIndex\<close> is the \<^verbatim>\<open>IndexError\<close> of \<^verbatim>\<open>key[-1]\<close>, \<^verbatim>\<open>key[-3]\<close>, \<^verbatim>\<open>key[-4]\<close>
  or \<^verbatim>\<open>key[-5]\<close> on a name that is too short.
\<close>

datatype start_name = Location string | Unsupported | BadIndex

definition state_start_name :: "string \<Rightarrow> start_name" where
  "state_start_name key =
     (case char_from_end 1 key of
        None \<Rightarrow> BadIndex
      | Some c1 \<Rightarrow>
          if \<not> c1 = CHR '']'' then
            (if tail_slice 3 key = ''I.y'' then Location (head_slice 10 key @ ''I_start'')
             else if tail_slice 3 key = ''D.x'' then Location (head_slice 10 key @ ''D_start'')
             else Location (key @ ''_start''))
          else
            (case char_from_end 3 key of
               None \<Rightarrow> BadIndex
             | Some c3 \<Rightarrow>
                 if c3 = CHR ''['' then
                   Location (head_slice 3 key @ ''_start'' @ tail_slice 3 key)
                 else
                   (case char_from_end 4 key of
                      None \<Rightarrow> BadIndex
                    | Some c4 \<Rightarrow>
                        if c4 = CHR ''['' then
                          Location (head_slice 4 key @ ''_start'' @ tail_slice 4 key)
                        else
                          (case char_from_end 5 key of
                             None \<Rightarrow> BadIndex
                           | Some c5 \<Rightarrow>
                               if c5 = CHR ''['' then
                                 Location (head_slice 5 key @ ''_start'' @ tail_slice 5 key)
                               else Unsupported))))"

definition digit :: "char \<Rightarrow> bool" where
  "digit c = (c \<in> set ''0123456789'')"

subsection \<open>What the script prints\<close>

text \<open>
  Every \<^verbatim>\<open>print\<close> of the modelled functions is one \<open>report\<close>, kept in the order it is
  printed; \<open>text_of\<close> is the line that appears (\<^verbatim>\<open>print\<close> joins its arguments with one
  space).
\<close>

datatype report =
    NotParameter string
  | NotInitial string
  | RequirementsHeader
  | Requirement string
  | ValueMissing string
  | FirstInit
  | TooManyStates
  | ModeNotCorrect
  | NoSimulationDone

fun text_of :: "report \<Rightarrow> string" where
  "text_of (NotParameter key) =
     ''Error: '' @ key @ '' - seems not an accessible parameter - check the spelling''"
| "text_of (NotInitial key) =
     ''Error: '' @ key @ '' - seems not an initial value, use par() instead - check the spelling''"
| "text_of RequirementsHeader = ''Error - the following requirements do not hold:''"
| "text_of (Requirement item) = item"
| "text_of (ValueMissing key) = ''Value missing: '' @ key"
| "text_of FirstInit = ''Error: Simulation is first done with default mode = init'' @ [CHR 0x27]"
| "text_of TooManyStates = ''The state vecotr has more than 1000 states''"
| "text_of ModeNotCorrect = ''Simulation mode not correct''"
| "text_of NoSimulationDone = ''Error: No simulation done''"

text \<open>
  The calls that change the FMU, as the script makes them: \<^verbatim>\<open>load_fmu\<close>, \<^verbatim>\<open>model.reset()\<close>,
  \<^verbatim>\<open>model.set(location, value)\<close> and \<^verbatim>\<open>model.simulate\<close> with its \<^verbatim>\<open>start_time\<close>
  (absent in mode \<^verbatim>\<open>init\<close>, where PyFMI takes the default start of the model) and its
  \<^verbatim>\<open>final_time\<close>. The options are passed through and not modelled.
\<close>

datatype engine_call = Load | Reset | Set string pyval | Simulate "real option" real

text \<open>
  The exceptions that can leave the modelled functions: \<open>EngineRaised c\<close> is the exception
  of the engine call \<open>c\<close>, \<open>ReadRaised name\<close> that of \<^verbatim>\<open>model.get(name)\<close>, and \<open>ShowRaised\<close>
  that of the replay of the diagram commands.
\<close>

datatype py_exn =
    TypeError
  | KeyError string
  | IndexError
  | EngineRaised engine_call
  | ReadRaised string
  | ShowRaised

subsection \<open>par() and init()\<close>

text \<open>
  \<^verbatim>\<open>x_kwarg.update(*x)\<close>: \<open>x\<close> is the tuple of extra positional arguments and
  \<^verbatim>\<open>dict.update\<close> takes at most one; with two or more it raises \<^verbatim>\<open>TypeError\<close>, before
  anything else has happened.
\<close>

definition merge_args :: "'v dict list \<Rightarrow> 'v dict \<Rightarrow> py_exn + 'v dict" where
  "merge_args x x_kwarg =
     (case x of
        [] \<Rightarrow> Inr x_kwarg
      | [m] \<Rightarrow> Inr (update x_kwarg m)
      | _ \<Rightarrow> Inl TypeError)"

text \<open>
  The loop of \<^verbatim>\<open>par\<close> over \<^verbatim>\<open>x_kwarg.keys()\<close>: a key of \<^verbatim>\<open>parDict\<close> is staged in
  \<^verbatim>\<open>x_temp\<close>, any other key is reported. The accumulator is \<^verbatim>\<open>x_temp\<close> and the lines
  printed so far.
\<close>

fun par_loop :: "pyval dict \<Rightarrow> pyval dict \<Rightarrow> pyval dict \<times> report list \<Rightarrow> pyval dict \<times> report list" where
  "par_loop pd [] acc = acc"
| "par_loop pd ((key, v) # rest) (x_temp, lines) =
     (if key \<in> set (keys pd)
      then par_loop pd rest (update x_temp [(key, v)], lines)
      else par_loop pd rest (x_temp, lines @ [NotParameter key]))"

text \<open>
  \<^verbatim>\<open>par(parDict, parCheck, parLocation, *x, **x_kwarg)\<close>. It returns the dictionary as
  \<^verbatim>\<open>parDict.update(x_temp)\<close> leaves it, and the lines printed. \<^verbatim>\<open>parLocation\<close> is not
  used by the body. The requirements of \<^verbatim>\<open>parCheck\<close> are Python expressions evaluated
  with \<^verbatim>\<open>eval\<close>; their meaning is the parameter \<open>ev\<close> (requirement text, the updated
  dictionary, the truth value).
\<close>

definition par :: "(string \<Rightarrow> pyval dict \<Rightarrow> bool) \<Rightarrow> pyval dict \<Rightarrow> string list \<Rightarrow>
    pyval dict list \<Rightarrow> pyval dict \<Rightarrow> py_exn + (pyval dict \<times> report list)" where
  "par ev pd parCheck x x_kwarg =
     (case merge_args x x_kwarg of
        Inl e \<Rightarrow> Inl e
      | Inr kw \<Rightarrow>
          (let (x_temp, lines) = par_loop pd kw ([], []);
               pd' = update pd x_temp;
               parErrors = filter (\<lambda>requirement. \<not> ev requirement pd') parCheck
           in Inr (pd', lines @
                (if \<not> parErrors = [] then RequirementsHeader # map Requirement parErrors else []))))"

text \<open>\<^verbatim>\<open>sub in s\<close> for strings: \<open>sub\<close> occurs somewhere in \<open>s\<close>.\<close>

fun contains :: "string \<Rightarrow> string \<Rightarrow> bool" where
  "contains sub [] = (sub = [])"
| "contains sub (c # s) = (take (length sub) (c # s) = sub \<or> contains sub s)"

fun init_loop :: "pyval dict \<Rightarrow> pyval dict \<times> report list \<Rightarrow> pyval dict \<times> report list" where
  "init_loop [] acc = acc"
| "init_loop ((key, v) # rest) (x_init, lines) =
     (if contains ''_start'' key
      then init_loop rest (update x_init [(key, v)], lines)
      else init_loop rest (x_init, lines @ [NotInitial key]))"

text \<open>\<^verbatim>\<open>init(parDict, *x, **x_kwarg)\<close>: the test is on the key alone.\<close>

definition init :: "pyval dict \<Rightarrow> pyval dict list \<Rightarrow> pyval dict \<Rightarrow>
    py_exn + (pyval dict \<times> report list)" where
  "init pd x x_kwarg =
     (case merge_args x x_kwarg of
        Inl e \<Rightarrow> Inl e
      | Inr kw \<Rightarrow>
          (let (x_init, lines) = init_loop kw ([], [])
           in Inr (update pd x_init, lines)))"

subsection \<open>The engine and the session\<close>

text \<open>
  The FMU itself is not part of the script. Its behaviour is a parameter: whether a call
  raises, given the calls made before it; what \<^verbatim>\<open>model.get(name)[0]\<close> and \<^verbatim>\<open>model.time\<close>
  read after those calls (\<open>None\<close>: the read raises); and whether the replay of the diagram
  commands raises (it does, with \<^verbatim>\<open>NameError\<close>, when no plot window was set up).
\<close>

record engine =
  raises :: "engine_call list \<Rightarrow> engine_call \<Rightarrow> bool"
  get_value :: "engine_call list \<Rightarrow> string \<Rightarrow> pyval option"
  time_of :: "engine_call list \<Rightarrow> real"
  show_raises :: "engine_call list \<Rightarrow> bool"

text \<open>
  The globals of the script. \<open>model_loaded\<close> is \<^verbatim>\<open>model is not None\<close>. \<open>calls\<close> is the log
  of the calls made to the engine and \<open>printed\<close> the lines printed, both oldest first.
  Times are Python floats, modelled as reals.
\<close>

record session =
  model_loaded :: bool
  parDict :: "pyval dict"
  parLocation :: "string dict"
  stateDict :: "pyval dict"
  prevFinalTime :: real
  simulationTime :: real
  calls :: "engine_call list"
  printed :: "report list"

text \<open>
  The state dictionary at start-up: \<^verbatim>\<open>model.get_states_list()\<close> updated with
  \<^verbatim>\<open>timeDiscreteStates\<close>, which the script leaves empty.
\<close>

definition timeDiscreteStates :: "pyval dict" where
  "timeDiscreteStates = []"

definition initial_stateDict :: "pyval dict \<Rightarrow> pyval dict" where
  "initial_stateDict states_list = update states_list timeDiscreteStates"

subsection \<open>simu()\<close>

text \<open>
  \<^verbatim>\<open>parDict[key] in [np.nan, None, '']\<close>: the value is the object \<^verbatim>\<open>np.nan\<close>, or
  \<^verbatim>\<open>None\<close>, or equal to the empty string.
\<close>

definition is_missing :: "pyval \<Rightarrow> bool" where
  "is_missing v = (v = NpNan \<or> v = PyNone \<or> v = Str [])"

text \<open>
  The check of \<^verbatim>\<open>parDict\<close>: the lines printed and \<^verbatim>\<open>value_missing\<close>, which the script
  sets with \<^verbatim>\<open>value_missing =+1\<close>, that is, to 1.
\<close>

fun check_parDict :: "pyval dict \<Rightarrow> report list \<times> int \<Rightarrow> report list \<times> int" where
  "check_parDict [] acc = acc"
| "check_parDict ((key, v) # rest) (lines, value_missing) =
     (if is_missing v
      then check_parDict rest (lines @ [ValueMissing key], 1)
      else check_parDict rest (lines, value_missing))"

text \<open>One call of the engine: it is logged, and it raises or returns.\<close>

definition engine_do :: "engine \<Rightarrow> engine_call \<Rightarrow> session \<Rightarrow> py_exn option \<times> session" where
  "engine_do E c s =
     (if raises E (calls s) c then Some (EngineRaised c) else None,
      s\<lparr>calls := calls s @ [c]\<rparr>)"

text \<open>\<^verbatim>\<open>if model is None: model = load_fmu(fmu_model)\<close>.\<close>

definition load_model :: "engine \<Rightarrow> session \<Rightarrow> py_exn option \<times> session" where
  "load_model E s =
     (if \<not> model_loaded s then
        (case engine_do E Load s of
           (Some e, s') \<Rightarrow> (Some e, s')
         | (None, s') \<Rightarrow> (None, s'\<lparr>model_loaded := True\<rparr>))
      else (None, s))"

text \<open>
  \<^verbatim>\<open>for key in parDict.keys(): model.set(parLocation[key], parDict[key])\<close>, over the items
  of \<^verbatim>\<open>parDict\<close>. A key without a location raises \<^verbatim>\<open>KeyError\<close>.
\<close>

fun set_parameters :: "engine \<Rightarrow> pyval dict \<Rightarrow> session \<Rightarrow> py_exn option \<times> session" where
  "set_parameters E [] s = (None, s)"
| "set_parameters E ((key, v) # rest) s =
     (case getitem (parLocation s) key of
        None \<Rightarrow> (Some (KeyError key), s)
      | Some location \<Rightarrow>
          (case engine_do E (Set location v) s of
             (Some e, s') \<Rightarrow> (Some e, s')
           | (None, s') \<Rightarrow> set_parameters E rest s'))"

text \<open>
  The loop over \<^verbatim>\<open>stateDict.keys()\<close> of mode \<^verbatim>\<open>cont\<close>. On an unsupported name it prints
  its message and leaves the loop (\<^verbatim>\<open>break\<close>): the loop ends without an exception.
\<close>

fun set_states :: "engine \<Rightarrow> pyval dict \<Rightarrow> session \<Rightarrow> py_exn option \<times> session" where
  "set_states E [] s = (None, s)"
| "set_states E ((key, v) # rest) s =
     (case state_start_name key of
        BadIndex \<Rightarrow> (Some IndexError, s)
      | Unsupported \<Rightarrow> (None, s\<lparr>printed := printed s @ [TooManyStates]\<rparr>)
      | Location location \<Rightarrow>
          (case engine_do E (Set location v) s of
             (Some e, s') \<Rightarrow> (Some e, s')
           | (None, s') \<Rightarrow> set_states E rest s'))"

text \<open>
  \<^verbatim>\<open>for key in list(stateDict.keys()): stateDict[key] = model.get(key)[0]\<close>. Reading does
  not change the engine, so it is not logged.
\<close>

fun store_states :: "engine \<Rightarrow> string list \<Rightarrow> session \<Rightarrow> py_exn option \<times> session" where
  "store_states E [] s = (None, s)"
| "store_states E (key # rest) s =
     (case get_value E (calls s) key of
        None \<Rightarrow> (Some (ReadRaised key), s)
      | Some v \<Rightarrow> store_states E rest (s\<lparr>stateDict := setitem key v (stateDict s)\<rparr>))"

text \<open>
  The branch on \<^verbatim>\<open>mode\<close>: the exception raised, if any, the session, and
  \<^verbatim>\<open>simulationDone\<close>.
\<close>

definition run_mode :: "engine \<Rightarrow> string \<Rightarrow> session \<Rightarrow> py_exn option \<times> session \<times> bool" where
  "run_mode E mode s =
     (if mode \<in> set [''Initial'', ''initial'', ''init''] then
        (case set_parameters E (parDict s) s of
           (Some e, s1) \<Rightarrow> (Some e, s1, False)
         | (None, s1) \<Rightarrow>
             (case engine_do E (Simulate None (simulationTime s1)) s1 of
                (Some e, s2) \<Rightarrow> (Some e, s2, False)
              | (None, s2) \<Rightarrow> (None, s2, True)))
      else if mode \<in> set [''Continued'', ''continued'', ''cont''] then
        (if prevFinalTime s = 0 then (None, s\<lparr>printed := printed s @ [FirstInit]\<rparr>, False)
         else
           (case set_parameters E (parDict s) s of
              (Some e, s1) \<Rightarrow> (Some e, s1, False)
            | (None, s1) \<Rightarrow>
                (case set_states E (stateDict s1) s1 of
                   (Some e, s2) \<Rightarrow> (Some e, s2, False)
                 | (None, s2) \<Rightarrow>
                     (case engine_do E
                        (Simulate (Some (prevFinalTime s2)) (prevFinalTime s2 + simulationTime s2)) s2 of
                        (Some e, s3) \<Rightarrow> (Some e, s3, False)
                      | (None, s3) \<Rightarrow> (None, s3, True)))))
      else (None, s\<lparr>printed := printed s @ [ModeNotCorrect]\<rparr>, False))"

text \<open>
  How a call of \<^verbatim>\<open>simu\<close> ends: the simulation was done and its results stored; it
  returned after \<^verbatim>\<open>Error: No simulation done\<close>; it returned early because a value was
  missing; or an exception left it.
\<close>

datatype outcome = Done | NoSimulation | MissingValue | Raised py_exn

text \<open>The part of \<^verbatim>\<open>simu\<close> under \<^verbatim>\<open>if simulationDone:\<close>.\<close>

definition store_results :: "engine \<Rightarrow> session \<Rightarrow> outcome \<times> session" where
  "store_results E s =
     (if show_raises E (calls s) then (Raised ShowRaised, s)
      else
        (case store_states E (keys (stateDict s)) s of
           (Some e, s1) \<Rightarrow> (Raised e, s1)
         | (None, s1) \<Rightarrow> (Done, s1\<lparr>prevFinalTime := time_of E (calls s1)\<rparr>)))"

text \<open>
  \<^verbatim>\<open>simu(simulationTimeLocal, mode, options, diagrams, timeDiscreteStates)\<close>: the outcome
  and the globals as the call leaves them.
\<close>

definition simu :: "engine \<Rightarrow> real \<Rightarrow> string \<Rightarrow> session \<Rightarrow> outcome \<times> session" where
  "simu E simulationTimeLocal mode s0 =
     (let s1 = s0\<lparr>simulationTime := simulationTimeLocal\<rparr>;
          (lines, value_missing) = check_parDict (parDict s1) ([], 0);
          s2 = s1\<lparr>printed := printed s1 @ lines\<rparr>
      in if value_missing > 0 then (MissingValue, s2)
         else
           (case load_model E s2 of
              (Some e, s3) \<Rightarrow> (Raised e, s3)
            | (None, s3) \<Rightarrow>
                (case engine_do E Reset s3 of
                   (Some e, s4) \<Rightarrow> (Raised e, s4)
                 | (None, s4) \<Rightarrow>
                     (case run_mode E mode s4 of
                        (Some e, s5, simulationDone) \<Rightarrow> (Raised e, s5)
                      | (None, s5, simulationDone) \<Rightarrow>
                          if simulationDone then store_results E s5
                          else (NoSimulation, s5\<lparr>printed := printed s5 @ [NoSimulationDone]\<rparr>)))))"

subsection \<open>The script's own dictionaries\<close>

text \<open>\<^verbatim>\<open>parDict\<close> and \<^verbatim>\<open>parLocation\<close> as the script fills them at start-up.\<close>

definition script_parDict :: "pyval dict" where
  "script_parDict =
     [(''Vcc'', Num 0.040), (''N_start'', Num 50), (''DO_start'', Num 100),
      (''qm'', Num (1 / 1000000)), (''Yns'', Num 0.013), (''qLpmax'', Num 0.008),
      (''scale'', Num 1000), (''CL0'', Num 8), (''OTR'', Num 21)]"

definition script_parLocation :: "string dict" where
  "script_parLocation =
     [(''Vcc'', ''Vcc''), (''N_start'', ''N_start''), (''DO_start'', ''DO_start''),
      (''qm'', ''qm''), (''Yns'', ''Yns''), (''qLpmax'', ''qLpmax''),
      (''scale'', ''scale''), (''CL0'', ''CL0''), (''OTR'', ''OTR'')]"

subsection \<open>Vocabulary for the properties of simu()\<close>

text \<open>The calls a run adds to the log.\<close>

definition new_calls :: "session \<Rightarrow> session \<Rightarrow> engine_call list" where
  "new_calls s s' = drop (length (calls s)) (calls s')"

definition is_simulate :: "engine_call \<Rightarrow> bool" where
  "is_simulate c = (case c of Simulate a b \<Rightarrow> True | _ \<Rightarrow> False)"

definition is_set :: "engine_call \<Rightarrow> bool" where
  "is_set c = (case c of Set location v \<Rightarrow> True | _ \<Rightarrow> False)"

text \<open>The keys of \<^verbatim>\<open>parDict\<close> whose value the check of \<^verbatim>\<open>simu\<close> takes as missing.\<close>

definition missing_keys :: "pyval dict \<Rightarrow> string list" where
  "missing_keys pd = keys (filter (\<lambda>(key, v). is_missing v) pd)"

text \<open>
  The \<^verbatim>\<open>model.set\<close> calls of the loop over \<^verbatim>\<open>parDict\<close>, up to the first key without a
  location, and those of the loop over \<^verbatim>\<open>stateDict\<close>, up to the first name without a
  translation.
\<close>

fun parameter_sets :: "string dict \<Rightarrow> pyval dict \<Rightarrow> engine_call list" where
  "parameter_sets pl [] = []"
| "parameter_sets pl ((key, v) # rest) =
     (case getitem pl key of
        None \<Rightarrow> []
      | Some location \<Rightarrow> Set location v # parameter_sets pl rest)"

fun state_sets :: "pyval dict \<Rightarrow> engine_call list" where
  "state_sets [] = []"
| "state_sets ((key, v) # rest) =
     (case state_start_name key of
        Location location \<Rightarrow> Set location v # state_sets rest
      | _ \<Rightarrow> [])"

text \<open>
  Modelled from the spec: the engine is not part of the repository, and the script gives
  \<^verbatim>\<open>simulate\<close> no start time in the initial modes. The spec's engine interface is
  \<^verbatim>\<open>simulate(startTime?, finalTime, options)\<close> and its run without a start time is the run
  over \<^verbatim>\<open>[0, duration]\<close>: the interval of a \<^verbatim>\<open>simulate\<close> call starts at the start time
  given, and at 0 when none is given.
\<close>

definition simulated_interval :: "engine_call \<Rightarrow> (real \<times> real) option" where
  "simulated_interval c =
     (case c of
        Simulate a b \<Rightarrow> Some (case a of None \<Rightarrow> 0 | Some start \<Rightarrow> start, b)
      | _ \<Rightarrow> None)"

text \<open>The globals that only the last part of \<^verbatim>\<open>simu\<close> and the transfer of its argument write.\<close>

definition globals_kept :: "session \<Rightarrow> session \<Rightarrow> bool" where
  "globals_kept s s' =
     (parDict s' = parDict s \<and> parLocation s' = parLocation s \<and> stateDict s' = stateDict s
      \<and> prevFinalTime s' = prevFinalTime s \<and> simulationTime s' = simulationTime s)"

definition loading :: "session \<Rightarrow> engine_call list" where
  "loading s = (if model_loaded s then [] else [Load])"

text \<open>
  An engine for the examples: no call raises, the time is the final time of the last
  simulation, every state reads as that time, and the diagrams replay. And the session of the script at
  start-up, for a model with the states \<open>states_list\<close>.
\<close>

definition last_final_time :: "engine_call list \<Rightarrow> real" where
  "last_final_time history = foldl (\<lambda>t c. case c of Simulate a b \<Rightarrow> b | _ \<Rightarrow> t) 0 history"

definition quiet_engine :: engine where
  "quiet_engine =
     \<lparr>raises = (\<lambda>history c. False), get_value = (\<lambda>history name. Some (Num (last_final_time history))),
      time_of = last_final_time, show_raises = (\<lambda>history. False)\<rparr>"

definition script_session :: "pyval dict \<Rightarrow> session" where
  "script_session states_list =
     \<lparr>model_loaded = True, parDict = script_parDict, parLocation = script_parLocation,
      stateDict = initial_stateDict states_list, prevFinalTime = 0, simulationTime = 1000,
      calls = [], printed = []\<rparr>"

section \<open>Properties of the name translation\<close>

lemma tail_slice_append: "length t = n \<Longrightarrow> tail_slice n (p @ t) = t"
  by (simp add: tail_slice_def)

lemma head_slice_append: "length t = n \<Longrightarrow> head_slice n (p @ t) = p"
  by (simp add: head_slice_def)

lemma digit_not_bracket: "digit c \<Longrightarrow> c \<noteq> CHR ''[''"
  by (auto simp: digit_def)

text \<open>
  An index of one to three characters, none of them an opening bracket: \<^verbatim>\<open>_start\<close> goes
  in front of the bracket.
\<close>

lemma start_name_indexed:
  assumes "1 \<le> length idx" "length idx \<le> 3" "CHR ''['' \<notin> set idx"
  shows "state_start_name (p @ ''['' @ idx @ '']'') = Location (p @ ''_start'' @ ''['' @ idx @ '']'')"
proof -
  consider a where "idx = [a]" | a b where "idx = [a, b]" | a b c where "idx = [a, b, c]"
    using assms(1,2) by (cases idx rule: list.exhaust; simp;
      rename_tac x xs; case_tac xs; simp; rename_tac y ys; case_tac ys; simp)
  then show ?thesis
  proof cases
    case 1
    then show ?thesis
      by (simp add: state_start_name_def char_from_end_def tail_slice_def head_slice_def nth_append)
  next
    case 2
    then show ?thesis using assms(3)
      by (auto simp: state_start_name_def char_from_end_def tail_slice_def head_slice_def nth_append)
  next
    case 3
    then show ?thesis using assms(3)
      by (auto simp: state_start_name_def char_from_end_def tail_slice_def head_slice_def nth_append)
  qed
qed

lemma start_name_scalar:
  assumes "key \<noteq> []" "last key \<noteq> CHR '']''" "tail_slice 3 key \<noteq> ''I.y''" "tail_slice 3 key \<noteq> ''D.x''"
  shows "state_start_name key = Location (key @ ''_start'')"
  using assms by (cases key rule: rev_cases) (simp_all add: state_start_name_def char_from_end_def)

lemma start_name_integrator:
  "state_start_name (p @ ''I.y'') = Location (head_slice 10 (p @ ''I.y'') @ ''I_start'')"
  by (simp add: state_start_name_def char_from_end_def tail_slice_def nth_append)

lemma start_name_discrete:
  "state_start_name (p @ ''D.x'') = Location (head_slice 10 (p @ ''D.x'') @ ''D_start'')"
  by (simp add: state_start_name_def char_from_end_def tail_slice_def nth_append)

text \<open>
  C1. The location of a state's initial value depends on the state's name alone
  (\<open>state_start_name\<close> takes the name and nothing else, so translating a name twice gives
  the same result), and it follows four branches. A plain scalar name (not empty, not
  ending in a closing bracket, in \<^verbatim>\<open>I.y\<close> or in \<^verbatim>\<open>D.x\<close>) gets \<^verbatim>\<open>_start\<close> appended. A name
  with a bracketed index of one to three digits gets \<^verbatim>\<open>_start\<close> immediately before the
  opening bracket. A name ending in \<^verbatim>\<open>I.y\<close> loses its last 10 characters and gets
  \<^verbatim>\<open>I_start\<close> appended; a name ending in \<^verbatim>\<open>D.x\<close> loses its last 10 characters and gets
  \<^verbatim>\<open>D_start\<close> appended. In particular \<^verbatim>\<open>x\<close> gives \<^verbatim>\<open>x_start\<close> and \<^verbatim>\<open>x[2]\<close> gives
  \<^verbatim>\<open>x_start[2]\<close>.
\<close>

theorem state_start_name_branches:
  "(key \<noteq> [] \<and> last key \<noteq> CHR '']'' \<and> tail_slice 3 key \<noteq> ''I.y'' \<and> tail_slice 3 key \<noteq> ''D.x''
      \<longrightarrow> state_start_name key = Location (key @ ''_start''))
   \<and> (1 \<le> length idx \<and> length idx \<le> 3 \<and> (\<forall>c\<in>set idx. digit c)
      \<longrightarrow> state_start_name (p @ ''['' @ idx @ '']'') = Location (p @ ''_start'' @ ''['' @ idx @ '']''))
   \<and> state_start_name (q @ ''I.y'') =
        Location (take (length (q @ ''I.y'') - 10) (q @ ''I.y'') @ ''I_start'')
   \<and> state_start_name (r @ ''D.x'') =
        Location (take (length (r @ ''D.x'') - 10) (r @ ''D.x'') @ ''D_start'')
   \<and> state_start_name ''x'' = Location ''x_start''
   \<and> state_start_name ''x[2]'' = Location ''x_start[2]''"
proof -
  have scalar: "key \<noteq> [] \<and> last key \<noteq> CHR '']'' \<and> tail_slice 3 key \<noteq> ''I.y'' \<and> tail_slice 3 key \<noteq> ''D.x''
      \<longrightarrow> state_start_name key = Location (key @ ''_start'')"
    using start_name_scalar by blast
  have indexed: "1 \<le> length idx \<and> length idx \<le> 3 \<and> (\<forall>c\<in>set idx. digit c)
      \<longrightarrow> state_start_name (p @ ''['' @ idx @ '']'') = Location (p @ ''_start'' @ ''['' @ idx @ '']'')"
    using start_name_indexed [of idx p] digit_not_bracket by blast
  have integrator: "state_start_name (q @ ''I.y'') =
        Location (take (length (q @ ''I.y'') - 10) (q @ ''I.y'') @ ''I_start'')"
    using start_name_integrator [of q] by (simp only: head_slice_def)
  have discrete: "state_start_name (r @ ''D.x'') =
        Location (take (length (r @ ''D.x'') - 10) (r @ ''D.x'') @ ''D_start'')"
    using start_name_discrete [of r] by (simp only: head_slice_def)
  have x: "state_start_name ''x'' = Location ''x_start''"
    by (simp add: state_start_name_def char_from_end_def tail_slice_def)
  have x2: "state_start_name ''x[2]'' = Location ''x_start[2]''"
    by (simp add: state_start_name_def char_from_end_def tail_slice_def head_slice_def)
  from scalar indexed integrator discrete x x2 show ?thesis by (intro conjI)
qed

theorem state_start_name_branches_witness:
  "state_start_name ''reactor.V'' = Location ''reactor.V_start''
   \<and> state_start_name ''c[12]'' = Location ''c_start[12]''
   \<and> state_start_name ''sensor.filterI.y'' = Location ''sensorI_start''
   \<and> state_start_name ''sampler.filterD.x'' = Location ''samplerD_start''"
  using state_start_name_branches [of "''reactor.V''" "''12''" "''c''" "''sensor.filter''" "''sampler.filter''"]
  by (simp add: tail_slice_def digit_def)

section \<open>Dictionaries, par() and init()\<close>

lemma keys_Nil: "keys [] = []"
  by (simp add: keys_def)

lemma keys_Cons: "keys ((k, v) # d) = k # keys d"
  by (simp add: keys_def)

lemma getitem_Nil: "getitem [] k = None"
  by (simp add: getitem_def)

lemma getitem_Cons: "getitem ((k', v) # d) k = (if k = k' then Some v else getitem d k)"
  by (simp add: getitem_def)

lemma keys_setitem:
  "keys (setitem k v d) = (if k \<in> set (keys d) then keys d else keys d @ [k])"
  by (induction d) (auto simp: keys_Nil keys_Cons)

lemma getitem_setitem: "getitem (setitem k v d) k' = (if k' = k then Some v else getitem d k')"
  by (induction d) (auto simp: getitem_Nil getitem_Cons)

lemma getitem_None_iff: "getitem d k = None \<longleftrightarrow> k \<notin> set (keys d)"
  by (induction d) (auto simp: getitem_Nil getitem_Cons keys_Nil keys_Cons split: if_splits)

lemma getitem_absent: "k \<notin> set (keys d) \<Longrightarrow> getitem d k = None"
  by (simp add: getitem_None_iff)

lemma distinct_setitem: "distinct (keys d) \<Longrightarrow> distinct (keys (setitem k v d))"
  by (simp add: keys_setitem)

lemma distinct_update: "distinct (keys d) \<Longrightarrow> distinct (keys (update d e))"
  by (induction d e rule: update.induct) (simp_all add: distinct_setitem)

lemma set_keys_update: "set (keys (update d e)) = set (keys d) \<union> set (keys e)"
  by (induction d e rule: update.induct) (auto simp: keys_setitem keys_Nil keys_Cons split: if_splits)

lemma keys_update_known:
  "set (keys e) \<subseteq> set (keys d) \<Longrightarrow> keys (update d e) = keys d"
  by (induction d e rule: update.induct) (auto simp: keys_setitem keys_Nil keys_Cons)

lemma getitem_update:
  "distinct (keys e) \<Longrightarrow>
   getitem (update d e) k = (case getitem e k of Some v \<Rightarrow> Some v | None \<Rightarrow> getitem d k)"
proof (induction d e rule: update.induct)
  case (1 d)
  then show ?case by (simp add: getitem_Nil)
next
  case (2 d k' v' e)
  then have fresh: "getitem e k' = None" and "distinct (keys e)"
    by (simp_all add: keys_Cons getitem_None_iff)
  then have "getitem (update (setitem k' v' d) e) k =
      (case getitem e k of Some v \<Rightarrow> Some v | None \<Rightarrow> getitem (setitem k' v' d) k)"
    using 2 by simp
  then show ?case using fresh
    by (simp add: getitem_setitem getitem_Cons split: option.splits)
qed

lemma setitem_fresh: "k \<notin> set (keys d) \<Longrightarrow> setitem k v d = d @ [(k, v)]"
  by (induction d) (auto simp: keys_Cons)

lemma keys_append: "keys (d @ e) = keys d @ keys e"
  by (simp add: keys_def)

lemma update_fresh:
  "distinct (keys e) \<Longrightarrow> set (keys e) \<inter> set (keys d) = {} \<Longrightarrow> update d e = d @ e"
proof (induction d e rule: update.induct)
  case (1 d) then show ?case by simp
next
  case (2 d k v e)
  then have "setitem k v d = d @ [(k, v)]"
    by (simp add: setitem_fresh keys_Cons)
  then show ?case using 2 by (simp add: keys_Cons keys_append keys_Nil)
qed

lemma par_loop_eq:
  "par_loop pd kw (x_temp, lines) =
     (update x_temp (filter (\<lambda>(k, v). k \<in> set (keys pd)) kw),
      lines @ map NotParameter (filter (\<lambda>k. k \<notin> set (keys pd)) (keys kw)))"
  by (induction kw arbitrary: x_temp lines) (simp_all add: keys_Nil keys_Cons split: prod.splits)

lemma init_loop_eq:
  "init_loop kw (x_init, lines) =
     (update x_init (filter (\<lambda>(k, v). contains ''_start'' k) kw),
      lines @ map NotInitial (filter (\<lambda>k. \<not> contains ''_start'' k) (keys kw)))"
  by (induction kw arbitrary: x_init lines) (simp_all add: keys_Nil keys_Cons split: prod.splits)

lemma keys_filter: "keys (filter (\<lambda>(k, v). P k) d) = filter P (keys d)"
  by (induction d) (auto simp: keys_Nil keys_Cons)

lemma getitem_filter:
  "getitem (filter (\<lambda>(k, v). P k) d) k = (if P k then getitem d k else None)"
  by (induction d) (auto simp: getitem_Nil getitem_Cons)


lemma count_list_distinct: "distinct xs \<Longrightarrow> x \<in> set xs \<Longrightarrow> count_list xs x = 1"
  by (induction xs) auto

lemma count_NotParameter: "count_list (map NotParameter ks) (NotParameter k) = count_list ks k"
  by (induction ks) auto

lemma count_Requirement: "count_list (map Requirement rs) (NotParameter k) = 0"
  by (induction rs) auto

lemma merge_args_distinct:
  "distinct (keys x_kwarg) \<Longrightarrow> merge_args x x_kwarg = Inr kw \<Longrightarrow> distinct (keys kw)"
  by (auto simp: merge_args_def distinct_update split: list.splits)

lemma staged_distinct:
  "distinct (keys kw) \<Longrightarrow> update [] (filter (\<lambda>(k, v). P k) kw) = filter (\<lambda>(k, v). P k) kw"
  using update_fresh [of "filter (\<lambda>(k, v). P k) kw" "[]"]
  by (simp add: keys_filter keys_Nil)

lemma par_result:
  assumes "merge_args x x_kwarg = Inr kw"
  shows "par ev pd parCheck x x_kwarg =
     Inr (update pd (update [] (filter (\<lambda>(k, v). k \<in> set (keys pd)) kw)),
          map NotParameter (filter (\<lambda>k. k \<notin> set (keys pd)) (keys kw)) @
          (let parErrors = filter (\<lambda>requirement. \<not> ev requirement
                (update pd (update [] (filter (\<lambda>(k, v). k \<in> set (keys pd)) kw)))) parCheck
           in if \<not> parErrors = [] then RequirementsHeader # map Requirement parErrors else []))"
  using assms by (simp add: par_def par_loop_eq Let_def)

lemma init_result:
  assumes "merge_args x x_kwarg = Inr kw"
  shows "init pd x x_kwarg =
     Inr (update pd (update [] (filter (\<lambda>(k, v). contains ''_start'' k) kw)),
          map NotInitial (filter (\<lambda>k. \<not> contains ''_start'' k) (keys kw)))"
  using assms by (simp add: init_def init_loop_eq)

lemma merge_args_eq:
  "length x \<le> 1 \<Longrightarrow> merge_args x x_kwarg = Inr (update x_kwarg (concat x))"
  by (cases x; cases "tl x") (auto simp: merge_args_def)

lemma merge_args_many: "2 \<le> length x \<Longrightarrow> merge_args x x_kwarg = Inl TypeError"
  by (cases x; cases "tl x") (auto simp: merge_args_def)

text \<open>
  C4. A call of \<^verbatim>\<open>par\<close> with a mapping of updates: the keyword arguments \<open>x_kwarg\<close>,
  updated with the positional mapping when there is one (\<open>x\<close> has at most one entry),
  which is the mapping \<open>kw\<close>. The call returns, and: every name of \<open>kw\<close> that is a key
  of the store reads back with exactly the value given; every name of \<open>kw\<close> that is not a
  key is reported exactly once as not an accessible parameter and stays absent from the
  store; names outside \<open>kw\<close> keep their values; the keys of the store and their order are
  unchanged; and the store is the old one updated once, after the loop, with all staged
  entries (a rejected name stops nothing). The names of \<open>kw\<close> are those of the keyword
  arguments and of the positional mapping, whose values take precedence.
\<close>

theorem par_applies_known_updates:
  assumes "distinct (keys x_kwarg)"
    and "length x \<le> 1"
    and "kw = update x_kwarg (concat x)"
  shows "\<exists>pd' lines. par ev pd parCheck x x_kwarg = Inr (pd', lines)
    \<and> (\<forall>k\<in>set (keys kw). k \<in> set (keys pd) \<longrightarrow> getitem pd' k = getitem kw k)
    \<and> (\<forall>k\<in>set (keys kw). k \<notin> set (keys pd) \<longrightarrow>
          count_list lines (NotParameter k) = 1 \<and> getitem pd' k = None)
    \<and> (\<forall>k. k \<notin> set (keys kw) \<longrightarrow> getitem pd' k = getitem pd k)
    \<and> keys pd' = keys pd
    \<and> pd' = update pd (filter (\<lambda>(k, v). k \<in> set (keys pd)) kw)
    \<and> set (keys kw) = set (keys x_kwarg) \<union> set (keys (concat x))
    \<and> (distinct (keys (concat x)) \<longrightarrow>
          (\<forall>k. getitem kw k =
            (case getitem (concat x) k of Some v \<Rightarrow> Some v | None \<Rightarrow> getitem x_kwarg k)))"
proof -
  let ?staged = "filter (\<lambda>(k, v). k \<in> set (keys pd)) kw"
  have m: "merge_args x x_kwarg = Inr kw"
    using assms(2,3) by (simp add: merge_args_eq)
  have dkw: "distinct (keys kw)"
    using assms(1) m by (rule merge_args_distinct)
  obtain pd' lines where r: "par ev pd parCheck x x_kwarg = Inr (pd', lines)"
    using par_result [OF m, of ev pd parCheck] by blast
  have pd': "pd' = update pd ?staged"
    using r par_result [OF m, of ev pd parCheck] staged_distinct [OF dkw]
    by simp
  have dst: "distinct (keys ?staged)"
    using dkw by (simp add: keys_filter)
  have get: "getitem pd' k = (if k \<in> set (keys pd) then
      (case getitem kw k of Some v \<Rightarrow> Some v | None \<Rightarrow> getitem pd k) else getitem pd k)" for k
    by (simp add: pd' getitem_update [OF dst] getitem_filter)
  have lines: "\<exists>rs. lines = map NotParameter (filter (\<lambda>k. k \<notin> set (keys pd)) (keys kw)) @ rs
      \<and> count_list rs (NotParameter k) = 0" for k
    using r par_result [OF m, of ev pd parCheck]
    by (auto simp: Let_def count_Requirement)
  have known: "\<forall>k\<in>set (keys kw). k \<in> set (keys pd) \<longrightarrow> getitem pd' k = getitem kw k"
  proof (intro ballI impI)
    fix k assume "k \<in> set (keys kw)" "k \<in> set (keys pd)"
    then obtain v where "getitem kw k = Some v"
      using getitem_None_iff [of kw k] by (cases "getitem kw k") auto
    then show "getitem pd' k = getitem kw k"
      using \<open>k \<in> set (keys pd)\<close> by (simp add: get)
  qed
  have unknown: "\<forall>k\<in>set (keys kw). k \<notin> set (keys pd) \<longrightarrow>
      count_list lines (NotParameter k) = 1 \<and> getitem pd' k = None"
  proof (intro ballI impI)
    fix k assume k: "k \<in> set (keys kw)" "k \<notin> set (keys pd)"
    obtain rs where rs: "lines = map NotParameter (filter (\<lambda>k. k \<notin> set (keys pd)) (keys kw)) @ rs"
        "count_list rs (NotParameter k) = 0"
      using lines [of k] by blast
    have "count_list (filter (\<lambda>k. k \<notin> set (keys pd)) (keys kw)) k = 1"
      using dkw k by (intro count_list_distinct) auto
    then have "count_list lines (NotParameter k) = 1"
      using rs by (simp add: count_NotParameter)
    moreover have "getitem pd' k = None"
      using k(2) by (simp add: get getitem_None_iff)
    ultimately show "count_list lines (NotParameter k) = 1 \<and> getitem pd' k = None" ..
  qed
  have others: "\<forall>k. k \<notin> set (keys kw) \<longrightarrow> getitem pd' k = getitem pd k"
    by (simp add: get getitem_absent)
  have keys: "keys pd' = keys pd"
    unfolding pd' by (rule keys_update_known) (auto simp: keys_filter)
  have kwkeys: "set (keys kw) = set (keys x_kwarg) \<union> set (keys (concat x))"
    by (simp add: assms(3) set_keys_update)
  have kwget: "distinct (keys (concat x)) \<longrightarrow>
          (\<forall>k. getitem kw k =
            (case getitem (concat x) k of Some v \<Rightarrow> Some v | None \<Rightarrow> getitem x_kwarg k))"
    by (simp add: assms(3) getitem_update)
  from r known unknown others keys pd' kwkeys kwget show ?thesis by blast
qed


theorem par_applies_known_updates_witness:
  "par (\<lambda>requirement d. True) script_parDict [] [[(''Vcc'', Num 0.05), (''Vc'', Num 1)]]
       [(''qm'', Num 2), (''Vcc'', Num 7)] =
     Inr (update script_parDict [(''qm'', Num 2), (''Vcc'', Num 0.05)], [NotParameter ''Vc''])
   \<and> getitem (update script_parDict [(''qm'', Num 2), (''Vcc'', Num 0.05)]) ''Vcc''
       = Some (Num 0.05)
   \<and> getitem (update script_parDict [(''qm'', Num 2), (''Vcc'', Num 0.05)]) ''qm'' = Some (Num 2)
   \<and> getitem (update script_parDict [(''qm'', Num 2), (''Vcc'', Num 0.05)]) ''Vc'' = None
   \<and> getitem (update script_parDict [(''qm'', Num 2), (''Vcc'', Num 0.05)]) ''OTR''
       = getitem script_parDict ''OTR''
   \<and> keys (update script_parDict [(''qm'', Num 2), (''Vcc'', Num 0.05)]) = keys script_parDict"
proof -
  let ?x = "[[(''Vcc'', Num 0.05), (''Vc'', Num 1)]]"
  let ?x_kwarg = "[(''qm'', Num 2), (''Vcc'', Num 7)]"
  let ?kw = "[(''qm'', Num 2), (''Vcc'', Num 0.05), (''Vc'', Num 1)]"
  have d: "distinct (keys ?x_kwarg)"
    by (simp add: keys_def)
  have l: "length ?x \<le> 1" by simp
  have kw: "?kw = update ?x_kwarg (concat ?x)" by simp
  have st: "filter (\<lambda>(k, v). k \<in> set (keys script_parDict)) ?kw
      = [(''qm'', Num 2), (''Vcc'', Num 0.05)]"
    by (simp add: keys_def script_parDict_def)
  have un: "[k \<leftarrow> keys ?kw. k \<notin> set (keys script_parDict)] = [''Vc'']"
    by (simp add: keys_def script_parDict_def)
  obtain pd' lines where
    r: "par (\<lambda>requirement d. True) script_parDict [] ?x ?x_kwarg = Inr (pd', lines)"
    and p: "pd' = update script_parDict (filter (\<lambda>(k, v). k \<in> set (keys script_parDict)) ?kw)"
    and u: "\<forall>k\<in>set (keys ?kw). k \<notin> set (keys script_parDict) \<longrightarrow>
          count_list lines (NotParameter k) = 1 \<and> getitem pd' k = None"
    and k: "\<forall>k\<in>set (keys ?kw). k \<in> set (keys script_parDict) \<longrightarrow> getitem pd' k = getitem ?kw k"
    and o: "\<forall>k. k \<notin> set (keys ?kw) \<longrightarrow> getitem pd' k = getitem script_parDict k"
    and ks: "keys pd' = keys script_parDict"
    using par_applies_known_updates [OF d l kw, of "\<lambda>requirement d. True" script_parDict "[]"]
    by blast
  have pd': "pd' = update script_parDict [(''qm'', Num 2), (''Vcc'', Num 0.05)]"
    using p st by simp
  have lines: "lines = [NotParameter ''Vc'']"
    using r by (simp add: par_def merge_args_def script_parDict_def keys_def)
  have 1: "getitem pd' ''Vcc'' = Some (Num 0.05)" "getitem pd' ''qm'' = Some (Num 2)"
    using k by (simp_all add: keys_def script_parDict_def getitem_def)
  have 2: "getitem pd' ''Vc'' = None"
    using u by (simp add: keys_def script_parDict_def)
  have 3: "getitem pd' ''OTR'' = getitem script_parDict ''OTR''"
    using o by (simp add: keys_def)
  show ?thesis using r 1 2 3 ks unfolding pd' lines by simp
qed

text \<open>\<open>contains\<close> is the substring test.\<close>

lemma contains_iff: "contains sub s \<longleftrightarrow> (\<exists>p q. s = p @ sub @ q)"
proof (induction s)
  case Nil
  then show ?case by auto
next
  case (Cons c s)
  show ?case
  proof
    assume "contains sub (c # s)"
    then consider "take (length sub) (c # s) = sub" | "contains sub s" by auto
    then show "\<exists>p q. c # s = p @ sub @ q"
    proof cases
      case 1
      then have "c # s = [] @ sub @ drop (length sub) (c # s)"
        by (metis append_Nil append_take_drop_id)
      then show ?thesis by blast
    next
      case 2
      then obtain p q where "s = p @ sub @ q" using Cons by blast
      then have "c # s = (c # p) @ sub @ q" by simp
      then show ?thesis by blast
    qed
  next
    assume "\<exists>p q. c # s = p @ sub @ q"
    then obtain p q where pq: "c # s = p @ sub @ q" by blast
    show "contains sub (c # s)"
    proof (cases p)
      case Nil
      then have "take (length sub) (c # s) = sub" using pq by simp
      then show ?thesis by simp
    next
      case (Cons a p')
      then have "s = p' @ sub @ q" using pq by simp
      then show ?thesis using Cons.IH by auto
    qed
  qed
qed

text \<open>
  C5, as the claim states it, fails for \<^verbatim>\<open>init\<close>, in two ways. \<^verbatim>\<open>init\<close> does not look the
  name up in the store: \<^verbatim>\<open>init(X_start=1)\<close> on the script's own store, which has no
  \<^verbatim>\<open>X_start\<close>, reports nothing and leaves \<^verbatim>\<open>X_start\<close> as a new key. And its test is not
  for a suffix: \<^verbatim>\<open>c_start[2]\<close> ends in \<^verbatim>\<open>art[2]\<close>, and \<^verbatim>\<open>init(parDict, {'c_start[2]': 1})\<close>
  accepts it and reports nothing.
\<close>

theorem init_adds_undeclared_start_name_counterexample:
  "init script_parDict [] [(''X_start'', Num 1)] = Inr (script_parDict @ [(''X_start'', Num 1)], [])
   \<and> ''X_start'' \<notin> set (keys script_parDict)
   \<and> ''X_start'' \<in> set (keys (script_parDict @ [(''X_start'', Num 1)]))
   \<and> tail_slice 6 ''c_start[2]'' = ''art[2]''
   \<and> init [(''c_start[2]'', Num 0)] [[(''c_start[2]'', Num 1)]] []
       = Inr ([(''c_start[2]'', Num 1)], [])"
  by (simp add: init_def merge_args_def script_parDict_def keys_def tail_slice_def)

text \<open>
  C5, amended. The mapping of updates \<open>kw\<close> is the keyword arguments updated with the
  positional mapping, as for C4. \<^verbatim>\<open>par\<close> rejects every name that is not a key of the
  store: the name is reported, it is skipped, and the keys of the store stay as they
  were. \<^verbatim>\<open>init\<close> tests the name alone: a name that does not contain \<^verbatim>\<open>_start\<close> (anywhere
  in it) is reported as not an initial value and skipped, and nothing else is reported;
  a name that contains \<^verbatim>\<open>_start\<close> is stored with its value whether or not the store
  declares it, so the keys of the store afterwards are the old keys and the accepted
  names.
\<close>

theorem store_update_acceptance:
  assumes "distinct (keys x_kwarg)"
    and "length x \<le> 1"
    and "kw = update x_kwarg (concat x)"
  shows "(\<exists>pd' lines. par ev pd parCheck x x_kwarg = Inr (pd', lines)
            \<and> keys pd' = keys pd
            \<and> (\<forall>k\<in>set (keys kw). k \<notin> set (keys pd) \<longrightarrow>
                  NotParameter k \<in> set lines \<and> getitem pd' k = None))
    \<and> (\<exists>pd' lines. init pd x x_kwarg = Inr (pd', lines)
            \<and> lines = map NotInitial (filter (\<lambda>k. \<not> contains ''_start'' k) (keys kw))
            \<and> set (keys pd') = set (keys pd) \<union> {k \<in> set (keys kw). contains ''_start'' k}
            \<and> (\<forall>k. getitem pd' k =
                  (if k \<in> set (keys kw) \<and> contains ''_start'' k then getitem kw k
                   else getitem pd k)))
    \<and> set (keys kw) = set (keys x_kwarg) \<union> set (keys (concat x))
    \<and> (distinct (keys (concat x)) \<longrightarrow>
          (\<forall>k. getitem kw k =
            (case getitem (concat x) k of Some v \<Rightarrow> Some v | None \<Rightarrow> getitem x_kwarg k)))"
proof -
  have m: "merge_args x x_kwarg = Inr kw"
    using assms(2,3) by (simp add: merge_args_eq)
  have dkw: "distinct (keys kw)"
    using assms(1) m by (rule merge_args_distinct)
  let ?staged = "filter (\<lambda>(k, v). k \<in> set (keys pd)) kw"
  let ?x_init = "filter (\<lambda>(k, v). contains ''_start'' k) kw"
  have p: "\<exists>lines'. par ev pd parCheck x x_kwarg =
      Inr (update pd ?staged, map NotParameter (filter (\<lambda>k. k \<notin> set (keys pd)) (keys kw)) @ lines')"
    using par_result [OF m, of ev pd parCheck] staged_distinct [OF dkw] by simp
  have pkeys: "keys (update pd ?staged) = keys pd"
    by (rule keys_update_known) (auto simp: keys_filter)
  have dst: "distinct (keys ?staged)"
    using dkw by (simp add: keys_filter)
  have pget: "getitem (update pd ?staged) k = None" if "k \<notin> set (keys pd)" for k
    using that by (simp add: getitem_update [OF dst] getitem_filter getitem_absent)
  have par_part: "\<exists>pd' lines. par ev pd parCheck x x_kwarg = Inr (pd', lines)
            \<and> keys pd' = keys pd
            \<and> (\<forall>k\<in>set (keys kw). k \<notin> set (keys pd) \<longrightarrow>
                  NotParameter k \<in> set lines \<and> getitem pd' k = None)"
    using p pkeys pget by auto
  have i: "init pd x x_kwarg =
      Inr (update pd ?x_init, map NotInitial (filter (\<lambda>k. \<not> contains ''_start'' k) (keys kw)))"
    using init_result [OF m, of pd] staged_distinct [OF dkw] by simp
  have dxi: "distinct (keys ?x_init)"
    using dkw by (simp add: keys_filter)
  have ikeys: "set (keys (update pd ?x_init)) =
      set (keys pd) \<union> {k \<in> set (keys kw). contains ''_start'' k}"
    by (auto simp: set_keys_update keys_filter)
  have iget: "getitem (update pd ?x_init) k =
      (if k \<in> set (keys kw) \<and> contains ''_start'' k then getitem kw k else getitem pd k)" for k
  proof (cases "k \<in> set (keys kw)")
    case True
    then obtain v where "getitem kw k = Some v"
      using getitem_None_iff [of kw k] by (cases "getitem kw k") auto
    then show ?thesis
      using True by (simp add: getitem_update [OF dxi] getitem_filter)
  next
    case False
    then show ?thesis
      by (simp add: getitem_update [OF dxi] getitem_filter getitem_absent)
  qed
  have init_part: "\<exists>pd' lines. init pd x x_kwarg = Inr (pd', lines)
            \<and> lines = map NotInitial (filter (\<lambda>k. \<not> contains ''_start'' k) (keys kw))
            \<and> set (keys pd') = set (keys pd) \<union> {k \<in> set (keys kw). contains ''_start'' k}
            \<and> (\<forall>k. getitem pd' k =
                  (if k \<in> set (keys kw) \<and> contains ''_start'' k then getitem kw k
                   else getitem pd k))"
    using i ikeys iget by simp
  have kwkeys: "set (keys kw) = set (keys x_kwarg) \<union> set (keys (concat x))"
    by (simp add: assms(3) set_keys_update)
  have kwget: "distinct (keys (concat x)) \<longrightarrow>
          (\<forall>k. getitem kw k =
            (case getitem (concat x) k of Some v \<Rightarrow> Some v | None \<Rightarrow> getitem x_kwarg k))"
    by (simp add: assms(3) getitem_update)
  from par_part init_part kwkeys kwget show ?thesis by (intro conjI)
qed


theorem store_update_acceptance_witness:
  "(case par (\<lambda>requirement d. True) script_parDict [] [[(''Glucose'', Num 2)]]
           [(''N_start'', Num 60)] of
      Inl e \<Rightarrow> False
    | Inr (pd', lines) \<Rightarrow> keys pd' = keys script_parDict
        \<and> NotParameter ''Glucose'' \<in> set lines \<and> getitem pd' ''Glucose'' = None)
   \<and> (case init script_parDict [[(''Glucose'', Num 2), (''c_start[2]'', Num 3)]]
           [(''N_start'', Num 60)] of
      Inl e \<Rightarrow> False
    | Inr (pd', lines) \<Rightarrow> lines = [NotInitial ''Glucose'']
        \<and> getitem pd' ''N_start'' = Some (Num 60)
        \<and> getitem pd' ''c_start[2]'' = Some (Num 3)
        \<and> getitem pd' ''Glucose'' = None
        \<and> getitem pd' ''Vcc'' = Some (Num 0.04))"
proof -
  let ?x_kwarg = "[(''N_start'', Num 60)]"
  have d: "distinct (keys ?x_kwarg)"
    by (simp add: keys_def)
  have l: "length [[(''Glucose'', Num (2::real))]] \<le> 1"
      "length [[(''Glucose'', Num (2::real)), (''c_start[2]'', Num 3)]] \<le> 1" by simp_all
  have kw: "[(''N_start'', Num 60), (''Glucose'', Num 2)]
        = update ?x_kwarg (concat [[(''Glucose'', Num 2)]])"
      "[(''N_start'', Num 60), (''Glucose'', Num 2), (''c_start[2]'', Num 3)]
        = update ?x_kwarg (concat [[(''Glucose'', Num 2), (''c_start[2]'', Num 3)]])"
    by simp_all
  have c: "contains ''_start'' ''N_start''" "contains ''_start'' ''c_start[2]''"
      "\<not> contains ''_start'' ''Glucose''" "\<not> contains ''_start'' ''Vcc''"
    by simp_all
  have k: "''Glucose'' \<notin> set (keys script_parDict)"
      "getitem script_parDict ''Glucose'' = None"
      "getitem script_parDict ''Vcc'' = Some (Num 0.04)"
    by (simp_all add: keys_def script_parDict_def getitem_def)
  note p = store_update_acceptance [OF d l(1) kw(1), of "\<lambda>requirement d. True" script_parDict "[]",
      THEN conjunct1]
  note i = store_update_acceptance [OF d l(2) kw(2), of "\<lambda>requirement d. True" script_parDict "[]",
      THEN conjunct2, THEN conjunct1]
  show ?thesis
    using p i c k by (auto simp: keys_def getitem_def)
qed

section \<open>The phases of simu()\<close>

lemma check_parDict_eq:
  "check_parDict pd (lines, value_missing) =
     (lines @ map ValueMissing (missing_keys pd),
      if missing_keys pd = [] then value_missing else 1)"
  by (induction pd arbitrary: lines value_missing)
     (auto simp: missing_keys_def keys_Nil keys_Cons)

lemma missing_keys_Nil_iff: "missing_keys pd = [] \<longleftrightarrow> (\<forall>v\<in>set (map snd pd). \<not> is_missing v)"
  by (induction pd) (auto simp: missing_keys_def keys_Nil keys_Cons)

lemma engine_do_eq:
  "engine_do E c s = (r, s') \<Longrightarrow>
     s' = s\<lparr>calls := calls s @ [c]\<rparr> \<and> (r = None \<or> r = Some (EngineRaised c))
     \<and> (r = None \<longleftrightarrow> \<not> raises E (calls s) c)"
  by (auto simp: engine_do_def split: if_splits)

lemma load_model_eq:
  "load_model E s = (r, s') \<Longrightarrow>
     calls s' = calls s @ loading s
     \<and> s' = s\<lparr>model_loaded := model_loaded s', calls := calls s'\<rparr>
     \<and> (r = None \<or> r = Some (EngineRaised Load))
     \<and> (r = None \<longleftrightarrow> model_loaded s \<or> \<not> raises E (calls s) Load)"
  by (auto simp: load_model_def engine_do_def loading_def split: if_splits)

lemma set_parameters_eq:
  "set_parameters E pd s = (r, s') \<Longrightarrow>
     \<exists>cs. s' = s\<lparr>calls := calls s @ cs\<rparr> \<and> (\<forall>c\<in>set cs. is_set c)
       \<and> (r = None \<longrightarrow> cs = parameter_sets (parLocation s) pd \<and> length cs = length pd)"
proof (induction pd arbitrary: s)
  case Nil
  then show ?case by (intro exI [of _ "[]"]) simp
next
  case (Cons a pd)
  obtain key v where a: "a = (key, v)" by (cases a)
  show ?case
  proof (cases "getitem (parLocation s) key")
    case None
    then show ?thesis using Cons.prems a by (intro exI [of _ "[]"]) auto
  next
    case (Some location)
    let ?s1 = "s\<lparr>calls := calls s @ [Set location v]\<rparr>"
    show ?thesis
    proof (cases "raises E (calls s) (Set location v)")
      case True
      then have "s' = ?s1" "r \<noteq> None"
        using Cons.prems a Some by (auto simp: engine_do_def)
      then show ?thesis by (intro exI [of _ "[Set location v]"]) (auto simp: is_set_def)
    next
      case False
      then have "set_parameters E pd ?s1 = (r, s')"
        using Cons.prems a Some by (simp add: engine_do_def)
      from Cons.IH [OF this] obtain cs where cs: "s' = ?s1\<lparr>calls := calls ?s1 @ cs\<rparr>"
          "\<forall>c\<in>set cs. is_set c"
          "r = None \<longrightarrow> cs = parameter_sets (parLocation ?s1) pd \<and> length cs = length pd"
        by blast
      then show ?thesis using a Some
        by (intro exI [of _ "Set location v # cs"]) (auto simp: is_set_def)
    qed
  qed
qed

lemma set_states_eq:
  "set_states E sd s = (r, s') \<Longrightarrow>
     \<exists>cs ls. s' = s\<lparr>calls := calls s @ cs, printed := printed s @ ls\<rparr>
       \<and> (\<forall>c\<in>set cs. is_set c)
       \<and> (r = None \<longrightarrow> cs = state_sets sd)"
proof (induction sd arbitrary: s)
  case Nil
  then show ?case by (intro exI [of _ "[]"]) simp
next
  case (Cons a sd)
  obtain key v where a: "a = (key, v)" by (cases a)
  show ?case
  proof (cases "state_start_name key")
    case BadIndex
    then show ?thesis using Cons.prems a by (intro exI [of _ "[]"]) auto
  next
    case Unsupported
    then have "s' = s\<lparr>calls := calls s @ [], printed := printed s @ [TooManyStates]\<rparr>" "r = None"
      using Cons.prems a by auto
    then show ?thesis using a Unsupported by (intro exI [of _ "[]"] exI [of _ "[TooManyStates]"]) simp
  next
    case (Location location)
    let ?s1 = "s\<lparr>calls := calls s @ [Set location v]\<rparr>"
    show ?thesis
    proof (cases "raises E (calls s) (Set location v)")
      case True
      then have "s' = ?s1\<lparr>printed := printed s @ []\<rparr>" "r \<noteq> None"
        using Cons.prems a Location by (auto simp: engine_do_def)
      then show ?thesis
        by (intro exI [of _ "[Set location v]"] exI [of _ "[]"]) (auto simp: is_set_def)
    next
      case False
      then have "set_states E sd ?s1 = (r, s')"
        using Cons.prems a Location by (simp add: engine_do_def)
      from Cons.IH [OF this] obtain cs ls where
          cs: "s' = ?s1\<lparr>calls := calls ?s1 @ cs, printed := printed ?s1 @ ls\<rparr>"
          "\<forall>c\<in>set cs. is_set c" "r = None \<longrightarrow> cs = state_sets sd"
        by blast
      then show ?thesis using a Location
        by (intro exI [of _ "Set location v # cs"] exI [of _ ls]) (auto simp: is_set_def)
    qed
  qed
qed

lemma store_states_eq:
  "store_states E ks s = (r, s') \<Longrightarrow>
     \<exists>sd'. s' = s\<lparr>stateDict := sd'\<rparr>
       \<and> (set ks \<subseteq> set (keys (stateDict s)) \<longrightarrow> keys sd' = keys (stateDict s))
       \<and> (r = None \<longrightarrow> (\<forall>k. getitem sd' k =
             (if k \<in> set ks then get_value E (calls s) k else getitem (stateDict s) k)))
       \<and> (r = None \<longrightarrow> (\<forall>k\<in>set ks. get_value E (calls s) k \<noteq> None))
       \<and> (r = None \<or> (\<exists>k. r = Some (ReadRaised k)))"
proof (induction ks arbitrary: s)
  case Nil
  then show ?case by (intro exI [of _ "stateDict s"]) simp
next
  case (Cons key ks)
  show ?case
  proof (cases "get_value E (calls s) key")
    case None
    then show ?thesis using Cons.prems by (intro exI [of _ "stateDict s"]) auto
  next
    case (Some v)
    let ?s1 = "s\<lparr>stateDict := setitem key v (stateDict s)\<rparr>"
    have "store_states E ks ?s1 = (r, s')"
      using Cons.prems Some by simp
    from Cons.IH [OF this] obtain sd' where sd': "s' = ?s1\<lparr>stateDict := sd'\<rparr>"
        "set ks \<subseteq> set (keys (stateDict ?s1)) \<longrightarrow> keys sd' = keys (stateDict ?s1)"
        "r = None \<longrightarrow> (\<forall>k. getitem sd' k =
             (if k \<in> set ks then get_value E (calls ?s1) k else getitem (stateDict ?s1) k))"
        "r = None \<longrightarrow> (\<forall>k\<in>set ks. get_value E (calls ?s1) k \<noteq> None)"
        "r = None \<or> (\<exists>k. r = Some (ReadRaised k))"
      by blast
    show ?thesis
    proof (intro exI [of _ sd'] conjI)
      show "s' = s\<lparr>stateDict := sd'\<rparr>" using sd'(1) by simp
      show "set (key # ks) \<subseteq> set (keys (stateDict s)) \<longrightarrow> keys sd' = keys (stateDict s)"
        using sd'(2) by (auto simp: keys_setitem)
      show "r = None \<longrightarrow> (\<forall>k. getitem sd' k =
             (if k \<in> set (key # ks) then get_value E (calls s) k else getitem (stateDict s) k))"
        using sd'(3) Some by (auto simp: getitem_setitem)
      show "r = None \<longrightarrow> (\<forall>k\<in>set (key # ks). get_value E (calls s) k \<noteq> None)"
        using sd'(4) Some by auto
      show "r = None \<or> (\<exists>k. r = Some (ReadRaised k))"
        by (rule sd'(5))
    qed
  qed
qed


lemma new_calls_append: "calls s' = calls s @ cs \<Longrightarrow> new_calls s s' = cs"
  by (simp add: new_calls_def)

lemma cont_not_init:
  "mode \<in> set [''Continued'', ''continued'', ''cont''] \<Longrightarrow> mode \<notin> set [''Initial'', ''initial'', ''init'']"
  by auto

lemma run_mode_first_init:
  assumes "mode \<in> set [''Continued'', ''continued'', ''cont'']" "prevFinalTime s = 0"
  shows "run_mode E mode s = (None, s\<lparr>printed := printed s @ [FirstInit]\<rparr>, False)"
proof -
  have "mode \<notin> set [''Initial'', ''initial'', ''init'']"
    using assms(1) by (rule cont_not_init)
  then show ?thesis using assms by (simp add: run_mode_def)
qed

lemma run_mode_not_correct:
  assumes "mode \<notin> set [''Initial'', ''initial'', ''init'']"
    and "mode \<notin> set [''Continued'', ''continued'', ''cont'']"
  shows "run_mode E mode s = (None, s\<lparr>printed := printed s @ [ModeNotCorrect]\<rparr>, False)"
  using assms by (simp add: run_mode_def)

lemma simu_eq:
  "simu E t mode s =
     (if missing_keys (parDict s) \<noteq> [] then
        (MissingValue, s\<lparr>simulationTime := t,
                          printed := printed s @ map ValueMissing (missing_keys (parDict s))\<rparr>)
      else
        (case load_model E (s\<lparr>simulationTime := t\<rparr>) of
           (Some e, s3) \<Rightarrow> (Raised e, s3)
         | (None, s3) \<Rightarrow>
             (case engine_do E Reset s3 of
                (Some e, s4) \<Rightarrow> (Raised e, s4)
              | (None, s4) \<Rightarrow>
                  (case run_mode E mode s4 of
                     (Some e, s5, simulationDone) \<Rightarrow> (Raised e, s5)
                   | (None, s5, simulationDone) \<Rightarrow>
                       if simulationDone then store_results E s5
                       else (NoSimulation, s5\<lparr>printed := printed s5 @ [NoSimulationDone]\<rparr>)))))"
  by (simp add: simu_def check_parDict_eq)


lemma globals_kept_refl: "globals_kept s s"
  by (simp add: globals_kept_def)

lemma globals_kept_trans: "globals_kept s s1 \<Longrightarrow> globals_kept s1 s2 \<Longrightarrow> globals_kept s s2"
  by (simp add: globals_kept_def)

lemma engine_do_kept:
  assumes "engine_do E c s = (r, s')"
  shows "globals_kept s s'" "calls s' = calls s @ [c]" "printed s' = printed s"
    "model_loaded s' = model_loaded s"
  using engine_do_eq [OF assms] by (simp_all add: globals_kept_def)

lemma load_model_kept:
  assumes "load_model E s = (r, s')"
  shows "globals_kept s s'" "calls s' = calls s @ loading s" "printed s' = printed s"
  using assms
  by (auto simp: load_model_def engine_do_def loading_def globals_kept_def split: if_splits)

lemma set_parameters_kept:
  assumes "set_parameters E pd s = (r, s')"
  shows "globals_kept s s'" "\<exists>cs. calls s' = calls s @ cs \<and> (\<forall>c\<in>set cs. is_set c)"
    "printed s' = printed s"
    "r = None \<Longrightarrow> calls s' = calls s @ parameter_sets (parLocation s) pd"
    "r = None \<Longrightarrow> length (parameter_sets (parLocation s) pd) = length pd"
proof -
  from set_parameters_eq [OF assms] obtain cs where cs: "s' = s\<lparr>calls := calls s @ cs\<rparr>"
      "\<forall>c\<in>set cs. is_set c"
      "r = None \<longrightarrow> cs = parameter_sets (parLocation s) pd \<and> length cs = length pd"
    by blast
  show "globals_kept s s'" using cs(1) by (simp add: globals_kept_def)
  show "\<exists>cs. calls s' = calls s @ cs \<and> (\<forall>c\<in>set cs. is_set c)"
    using cs(1,2) by (intro exI [of _ cs]) simp
  show "printed s' = printed s" using cs(1) by simp
  show "r = None \<Longrightarrow> calls s' = calls s @ parameter_sets (parLocation s) pd"
    using cs(1,3) by simp
  show "r = None \<Longrightarrow> length (parameter_sets (parLocation s) pd) = length pd"
    using cs(3) by auto
qed

lemma set_states_kept:
  assumes "set_states E sd s = (r, s')"
  shows "globals_kept s s'" "\<exists>cs. calls s' = calls s @ cs \<and> (\<forall>c\<in>set cs. is_set c)"
    "r = None \<Longrightarrow> calls s' = calls s @ state_sets sd"
proof -
  from set_states_eq [OF assms] obtain cs ls where
      cs: "s' = s\<lparr>calls := calls s @ cs, printed := printed s @ ls\<rparr>"
      "\<forall>c\<in>set cs. is_set c" "r = None \<longrightarrow> cs = state_sets sd"
    by blast
  show "globals_kept s s'" using cs(1) by (simp add: globals_kept_def)
  show "\<exists>cs. calls s' = calls s @ cs \<and> (\<forall>c\<in>set cs. is_set c)"
    using cs(1,2) by (intro exI [of _ cs]) simp
  show "r = None \<Longrightarrow> calls s' = calls s @ state_sets sd"
    using cs(1,3) by simp
qed

lemma run_mode_kept:
  assumes "run_mode E mode s = (r, s', done)"
  shows "globals_kept s s'" and "\<exists>cs. calls s' = calls s @ cs"
proof -
  obtain r1 s1 where p: "set_parameters E (parDict s) s = (r1, s1)"
    by (cases "set_parameters E (parDict s) s")
  obtain r2 s2 where i: "engine_do E (Simulate None (simulationTime s1)) s1 = (r2, s2)"
    by (cases "engine_do E (Simulate None (simulationTime s1)) s1")
  obtain r3 s3 where st: "set_states E (stateDict s1) s1 = (r3, s3)"
    by (cases "set_states E (stateDict s1) s1")
  obtain r4 s4 where c: "engine_do E
      (Simulate (Some (prevFinalTime s3)) (prevFinalTime s3 + simulationTime s3)) s3 = (r4, s4)"
    by (cases "engine_do E
      (Simulate (Some (prevFinalTime s3)) (prevFinalTime s3 + simulationTime s3)) s3")
  note k = set_parameters_kept(1,2) [OF p] engine_do_kept(1,2) [OF i]
    set_states_kept(1,2) [OF st] engine_do_kept(1,2) [OF c]
  have "s' = s1 \<or> s' = s2 \<or> s' = s3 \<or> s' = s4 \<or> s' = s\<lparr>printed := printed s @ [FirstInit]\<rparr>
      \<or> s' = s\<lparr>printed := printed s @ [ModeNotCorrect]\<rparr>"
    using assms p i st c
    by (auto simp: run_mode_def split: if_splits option.splits)
  moreover have "globals_kept s s1" "globals_kept s s2" "globals_kept s s3" "globals_kept s s4"
    using k by (auto intro: globals_kept_trans)
  moreover have "\<exists>cs. calls s1 = calls s @ cs" "\<exists>cs. calls s2 = calls s @ cs"
      "\<exists>cs. calls s3 = calls s @ cs" "\<exists>cs. calls s4 = calls s @ cs"
    using k by auto
  ultimately show "globals_kept s s'" and "\<exists>cs. calls s' = calls s @ cs"
    by (auto simp: globals_kept_def)
qed

lemma run_mode_done:
  assumes "run_mode E mode s = (r, s', True)"
  shows "r = None"
    and "length (parameter_sets (parLocation s) (parDict s)) = length (parDict s)"
    and "mode \<in> set [''Initial'', ''initial'', ''init''] \<Longrightarrow>
           calls s' = calls s @ parameter_sets (parLocation s) (parDict s)
             @ [Simulate None (simulationTime s)]"
    and "mode \<notin> set [''Initial'', ''initial'', ''init''] \<Longrightarrow>
           mode \<in> set [''Continued'', ''continued'', ''cont''] \<and> prevFinalTime s \<noteq> 0
           \<and> calls s' = calls s @ parameter_sets (parLocation s) (parDict s)
             @ state_sets (stateDict s)
             @ [Simulate (Some (prevFinalTime s)) (prevFinalTime s + simulationTime s)]"
proof -
  obtain r1 s1 where p: "set_parameters E (parDict s) s = (r1, s1)"
    by (cases "set_parameters E (parDict s) s")
  obtain r2 s2 where i: "engine_do E (Simulate None (simulationTime s1)) s1 = (r2, s2)"
    by (cases "engine_do E (Simulate None (simulationTime s1)) s1")
  obtain r3 s3 where st: "set_states E (stateDict s1) s1 = (r3, s3)"
    by (cases "set_states E (stateDict s1) s1")
  obtain r4 s4 where c: "engine_do E
      (Simulate (Some (prevFinalTime s3)) (prevFinalTime s3 + simulationTime s3)) s3 = (r4, s4)"
    by (cases "engine_do E
      (Simulate (Some (prevFinalTime s3)) (prevFinalTime s3 + simulationTime s3)) s3")
  have r1: "r1 = None" and r: "r = None"
    using assms p i st c by (auto simp: run_mode_def split: if_splits option.splits)
  show "r = None" by (rule r)
  show "length (parameter_sets (parLocation s) (parDict s)) = length (parDict s)"
    using set_parameters_kept(5) [OF p r1] .
  have k1: "globals_kept s s1" "calls s1 = calls s @ parameter_sets (parLocation s) (parDict s)"
    using set_parameters_kept(1) [OF p] set_parameters_kept(4) [OF p r1] by simp_all
  show "calls s' = calls s @ parameter_sets (parLocation s) (parDict s)
             @ [Simulate None (simulationTime s)]"
    if "mode \<in> set [''Initial'', ''initial'', ''init'']"
  proof -
    have "s' = s2" using assms p i that
      by (auto simp: run_mode_def split: if_splits option.splits)
    then show ?thesis using engine_do_kept(2) [OF i] k1 by (simp add: globals_kept_def)
  qed
  show "mode \<in> set [''Continued'', ''continued'', ''cont''] \<and> prevFinalTime s \<noteq> 0
           \<and> calls s' = calls s @ parameter_sets (parLocation s) (parDict s)
             @ state_sets (stateDict s)
             @ [Simulate (Some (prevFinalTime s)) (prevFinalTime s + simulationTime s)]"
    if "mode \<notin> set [''Initial'', ''initial'', ''init'']"
  proof -
    have m: "mode \<in> set [''Continued'', ''continued'', ''cont'']" "prevFinalTime s \<noteq> 0"
        and "r3 = None" and "s' = s4"
      using assms p st c that
      by (auto simp: run_mode_def split: if_splits option.splits)
    have k3: "globals_kept s1 s3" "calls s3 = calls s1 @ state_sets (stateDict s1)"
      using set_states_kept(1) [OF st] set_states_kept(3) [OF st \<open>r3 = None\<close>] by simp_all
    show ?thesis
      using m \<open>s' = s4\<close> engine_do_kept(2) [OF c] k1 k3 by (simp add: globals_kept_def)
  qed
qed

lemma store_results_eq:
  assumes "store_results E s = (out, s')"
  shows "calls s' = calls s" "printed s' = printed s" "parDict s' = parDict s"
    "parLocation s' = parLocation s" "simulationTime s' = simulationTime s"
    "keys (stateDict s') = keys (stateDict s)"
    "out \<noteq> NoSimulation" "out \<noteq> MissingValue"
    "out \<noteq> Done \<Longrightarrow> prevFinalTime s' = prevFinalTime s"
    "out \<noteq> Done \<Longrightarrow> \<forall>k. out \<noteq> Raised (ReadRaised k) \<Longrightarrow> stateDict s' = stateDict s"
    "out = Done \<Longrightarrow> prevFinalTime s' = time_of E (calls s)"
    "out = Done \<Longrightarrow> \<forall>k\<in>set (keys (stateDict s)).
        \<exists>v. getitem (stateDict s') k = Some v \<and> get_value E (calls s) k = Some v"
proof -
  obtain r1 s1 where st: "store_states E (keys (stateDict s)) s = (r1, s1)"
    by (cases "store_states E (keys (stateDict s)) s")
  from store_states_eq [OF st] obtain sd' where sd': "s1 = s\<lparr>stateDict := sd'\<rparr>"
      "keys sd' = keys (stateDict s)"
      "r1 = None \<longrightarrow> (\<forall>k. getitem sd' k =
             (if k \<in> set (keys (stateDict s)) then get_value E (calls s) k
              else getitem (stateDict s) k))"
      "r1 = None \<longrightarrow> (\<forall>k\<in>set (keys (stateDict s)). get_value E (calls s) k \<noteq> None)"
      "r1 = None \<or> (\<exists>k. r1 = Some (ReadRaised k))"
    by auto
  consider "show_raises E (calls s)" "out = Raised ShowRaised" "s' = s"
    | e where "\<not> show_raises E (calls s)" "r1 = Some e" "out = Raised e" "s' = s1"
    | "\<not> show_raises E (calls s)" "r1 = None" "out = Done"
      "s' = s1\<lparr>prevFinalTime := time_of E (calls s1)\<rparr>"
    using assms st by (cases r1) (auto simp: store_results_def split: if_splits)
  then have all: "calls s' = calls s \<and> printed s' = printed s \<and> parDict s' = parDict s
    \<and> parLocation s' = parLocation s \<and> simulationTime s' = simulationTime s
    \<and> keys (stateDict s') = keys (stateDict s)
    \<and> out \<noteq> NoSimulation \<and> out \<noteq> MissingValue
    \<and> (out \<noteq> Done \<longrightarrow> prevFinalTime s' = prevFinalTime s)
    \<and> (out \<noteq> Done \<longrightarrow> (\<forall>k. out \<noteq> Raised (ReadRaised k)) \<longrightarrow> stateDict s' = stateDict s)
    \<and> (out = Done \<longrightarrow> prevFinalTime s' = time_of E (calls s))
    \<and> (out = Done \<longrightarrow> (\<forall>k\<in>set (keys (stateDict s)).
        \<exists>v. getitem (stateDict s') k = Some v \<and> get_value E (calls s) k = Some v))"
  proof cases
    case 1
    then show ?thesis by simp
  next
    case 2
    then show ?thesis using sd' by auto
  next
    case 3
    then show ?thesis using sd' by auto
  qed
  show "calls s' = calls s" "printed s' = printed s" "parDict s' = parDict s"
    "parLocation s' = parLocation s" "simulationTime s' = simulationTime s"
    "keys (stateDict s') = keys (stateDict s)"
    "out \<noteq> NoSimulation" "out \<noteq> MissingValue"
    "out \<noteq> Done \<Longrightarrow> prevFinalTime s' = prevFinalTime s"
    "out \<noteq> Done \<Longrightarrow> \<forall>k. out \<noteq> Raised (ReadRaised k) \<Longrightarrow> stateDict s' = stateDict s"
    "out = Done \<Longrightarrow> prevFinalTime s' = time_of E (calls s)"
    "out = Done \<Longrightarrow> \<forall>k\<in>set (keys (stateDict s)).
        \<exists>v. getitem (stateDict s') k = Some v \<and> get_value E (calls s) k = Some v"
    using all by blast+
qed

section \<open>The outcomes of simu()\<close>

text \<open>The ways through \<^verbatim>\<open>simu\<close>, and what a call leaves whatever its outcome.\<close>

lemma simu_cases:
  assumes "simu E t mode s = (out, s')"
  obtains
    (missing) "missing_keys (parDict s) \<noteq> []" "out = MissingValue"
      "s' = s\<lparr>simulationTime := t,
              printed := printed s @ map ValueMissing (missing_keys (parDict s))\<rparr>"
  | (load) s3 where "missing_keys (parDict s) = []"
      "load_model E (s\<lparr>simulationTime := t\<rparr>) = (Some (EngineRaised Load), s3)"
      "out = Raised (EngineRaised Load)" "s' = s3"
  | (reset) s3 s4 where "missing_keys (parDict s) = []"
      "load_model E (s\<lparr>simulationTime := t\<rparr>) = (None, s3)"
      "engine_do E Reset s3 = (Some (EngineRaised Reset), s4)"
      "out = Raised (EngineRaised Reset)" "s' = s4"
  | (raised) s3 s4 e s5 d where "missing_keys (parDict s) = []"
      "load_model E (s\<lparr>simulationTime := t\<rparr>) = (None, s3)"
      "engine_do E Reset s3 = (None, s4)"
      "run_mode E mode s4 = (Some e, s5, d)" "out = Raised e" "s' = s5"
  | (not_done) s3 s4 s5 where "missing_keys (parDict s) = []"
      "load_model E (s\<lparr>simulationTime := t\<rparr>) = (None, s3)"
      "engine_do E Reset s3 = (None, s4)"
      "run_mode E mode s4 = (None, s5, False)" "out = NoSimulation"
      "s' = s5\<lparr>printed := printed s5 @ [NoSimulationDone]\<rparr>"
  | (stored) s3 s4 s5 where "missing_keys (parDict s) = []"
      "load_model E (s\<lparr>simulationTime := t\<rparr>) = (None, s3)"
      "engine_do E Reset s3 = (None, s4)"
      "run_mode E mode s4 = (None, s5, True)" "store_results E s5 = (out, s')"
proof (cases "missing_keys (parDict s) = []")
  case False
  then show ?thesis using assms missing by (simp add: simu_eq)
next
  case True
  obtain r3 s3 where l: "load_model E (s\<lparr>simulationTime := t\<rparr>) = (r3, s3)"
    by (cases "load_model E (s\<lparr>simulationTime := t\<rparr>)")
  obtain r4 s4 where r: "engine_do E Reset s3 = (r4, s4)"
    by (cases "engine_do E Reset s3")
  obtain r5 s5 d where m: "run_mode E mode s4 = (r5, s5, d)"
    by (cases "run_mode E mode s4")
  show ?thesis
  proof (cases r3)
    case (Some e)
    then have "e = EngineRaised Load" using load_model_eq [OF l] by auto
    then show ?thesis using assms True l Some load by (simp add: simu_eq)
  next
    case None
    note r3 = this
    show ?thesis
    proof (cases r4)
      case (Some e)
      then have "e = EngineRaised Reset" using engine_do_eq [OF r] by auto
      then show ?thesis using assms True l r r3 Some reset by (simp add: simu_eq)
    next
      case None
      note r4 = this
      show ?thesis
      proof (cases r5)
        case (Some e)
        then show ?thesis using assms True l r m r3 r4 raised by (simp add: simu_eq)
      next
        case None
        then show ?thesis using assms True l r m r3 r4 not_done stored
          by (cases d) (simp_all add: simu_eq)
      qed
    qed
  qed
qed

lemma simu_frame:
  assumes "simu E t mode s = (out, s')"
  shows "simulationTime s' = t" "parDict s' = parDict s" "parLocation s' = parLocation s"
    "\<exists>cs. calls s' = calls s @ cs"
    "keys (stateDict s') = keys (stateDict s)"
    "out \<noteq> Done \<Longrightarrow> prevFinalTime s' = prevFinalTime s"
    "out \<noteq> Done \<Longrightarrow> \<forall>k. out \<noteq> Raised (ReadRaised k) \<Longrightarrow> stateDict s' = stateDict s"
proof -
  let ?s1 = "s\<lparr>simulationTime := t\<rparr>"
  have "simulationTime s' = t \<and> parDict s' = parDict s \<and> parLocation s' = parLocation s
    \<and> (\<exists>cs. calls s' = calls s @ cs)
    \<and> keys (stateDict s') = keys (stateDict s)
    \<and> (out \<noteq> Done \<longrightarrow> prevFinalTime s' = prevFinalTime s)
    \<and> (out \<noteq> Done \<longrightarrow> (\<forall>k. out \<noteq> Raised (ReadRaised k)) \<longrightarrow> stateDict s' = stateDict s)"
    using assms
  proof (cases rule: simu_cases)
    case missing
    then show ?thesis by simp
  next
    case (load s3)
    then show ?thesis
      using load_model_kept [OF load(2)] by (simp add: globals_kept_def)
  next
    case (reset s3 s4)
    then show ?thesis
      using load_model_kept [OF reset(2)] engine_do_kept [OF reset(3)]
      by (simp add: globals_kept_def)
  next
    case (raised s3 s4 e s5 d)
    then show ?thesis
      using load_model_kept [OF raised(2)] engine_do_kept [OF raised(3)]
        run_mode_kept [OF raised(4)]
      by (auto simp: globals_kept_def)
  next
    case (not_done s3 s4 s5)
    then show ?thesis
      using load_model_kept [OF not_done(2)] engine_do_kept [OF not_done(3)]
        run_mode_kept [OF not_done(4)]
      by (auto simp: globals_kept_def)
  next
    case (stored s3 s4 s5)
    then show ?thesis
      using load_model_kept [OF stored(2)] engine_do_kept [OF stored(3)]
        run_mode_kept [OF stored(4)] store_results_eq [OF stored(5)]
      by (auto simp: globals_kept_def)
  qed
  then show "simulationTime s' = t" "parDict s' = parDict s" "parLocation s' = parLocation s"
    "\<exists>cs. calls s' = calls s @ cs"
    "keys (stateDict s') = keys (stateDict s)"
    "out \<noteq> Done \<Longrightarrow> prevFinalTime s' = prevFinalTime s"
    "out \<noteq> Done \<Longrightarrow> \<forall>k. out \<noteq> Raised (ReadRaised k) \<Longrightarrow> stateDict s' = stateDict s"
    by blast+
qed

text \<open>A call whose mode branch only prints one line.\<close>

lemma simu_without_run:
  assumes run: "\<And>s4. prevFinalTime s4 = prevFinalTime s \<Longrightarrow>
      run_mode E mode s4 = (None, s4\<lparr>printed := printed s4 @ [line]\<rparr>, False)"
    and simu: "simu E t mode s = (out, s')"
  shows "out \<in> {MissingValue, NoSimulation, Raised (EngineRaised Load), Raised (EngineRaised Reset)}
    \<and> set (new_calls s s') \<subseteq> {Load, Reset}
    \<and> (out = NoSimulation \<longrightarrow> printed s' = printed s @ [line, NoSimulationDone]
          \<and> new_calls s s' = loading s @ [Reset])
    \<and> (out = MissingValue \<longrightarrow>
          printed s' = printed s @ map ValueMissing (missing_keys (parDict s))
          \<and> new_calls s s' = [])
    \<and> (missing_keys (parDict s) = [] \<and> (\<forall>h. \<not> raises E h Load \<and> \<not> raises E h Reset)
          \<longrightarrow> out = NoSimulation)"
  using simu
proof (cases rule: simu_cases)
  case missing
  then show ?thesis by (simp add: new_calls_def)
next
  case (load s3)
  have "new_calls s s' = loading s"
    using load load_model_kept(2) [OF load(2)] by (simp add: new_calls_def loading_def)
  moreover have "\<exists>h. raises E h Load"
    using load_model_eq [OF load(2)] by auto
  ultimately show ?thesis using load by (auto simp: loading_def)
next
  case (reset s3 s4)
  have "new_calls s s' = loading s @ [Reset]"
    using reset load_model_kept(2) [OF reset(2)] engine_do_kept(2) [OF reset(3)]
    by (simp add: new_calls_def loading_def)
  moreover have "\<exists>h. raises E h Reset"
    using engine_do_eq [OF reset(3)] by auto
  ultimately show ?thesis using reset by (auto simp: loading_def)
next
  case (raised s3 s4 e s5 d)
  have "prevFinalTime s4 = prevFinalTime s"
    using load_model_kept(1) [OF raised(2)] engine_do_kept(1) [OF raised(3)]
    by (simp add: globals_kept_def)
  then show ?thesis using raised run [of s4] by simp
next
  case (not_done s3 s4 s5)
  have "prevFinalTime s4 = prevFinalTime s"
    using load_model_kept(1) [OF not_done(2)] engine_do_kept(1) [OF not_done(3)]
    by (simp add: globals_kept_def)
  then have s5: "s5 = s4\<lparr>printed := printed s4 @ [line]\<rparr>"
    using not_done(4) run [of s4] by simp
  have "new_calls s s' = loading s @ [Reset]"
    using not_done s5 load_model_kept(2) [OF not_done(2)] engine_do_kept(2) [OF not_done(3)]
    by (simp add: new_calls_def loading_def)
  moreover have "printed s' = printed s @ [line, NoSimulationDone]"
    using not_done s5 load_model_kept(3) [OF not_done(2)] engine_do_kept(3) [OF not_done(3)]
    by simp
  ultimately show ?thesis using not_done by (auto simp: loading_def)
next
  case (stored s3 s4 s5)
  have "prevFinalTime s4 = prevFinalTime s"
    using load_model_kept(1) [OF stored(2)] engine_do_kept(1) [OF stored(3)]
    by (simp add: globals_kept_def)
  then show ?thesis using stored run [of s4] by simp
qed

lemma missing_value_aborts:
  assumes "(key, v) \<in> set (parDict s)" "is_missing v"
  shows "simu E t mode s =
    (MissingValue, s\<lparr>simulationTime := t,
                      printed := printed s @ map ValueMissing (missing_keys (parDict s))\<rparr>)"
    and "key \<in> set (missing_keys (parDict s))"
proof -
  show k: "key \<in> set (missing_keys (parDict s))"
    using assms by (force simp: missing_keys_def keys_def)
  then have "missing_keys (parDict s) \<noteq> []" by auto
  then show "simu E t mode s =
    (MissingValue, s\<lparr>simulationTime := t,
                      printed := printed s @ map ValueMissing (missing_keys (parDict s))\<rparr>)"
    by (simp add: simu_eq)
qed

lemma continued_at_start:
  "simu quiet_engine 50 ''Continued'' (script_session []) =
     (NoSimulation, (script_session [])\<lparr>simulationTime := 50, calls := [Reset],
        printed := [FirstInit, NoSimulationDone]\<rparr>)"
  by (simp add: simu_def load_model_def engine_do_def run_mode_def quiet_engine_def
      script_session_def script_parDict_def is_missing_def)

section \<open>Continuation before any run\<close>

text \<open>
  C2, as the claim states it, fails: \<^verbatim>\<open>simu\<close> resets the engine (and loads it when the
  handle is \<^verbatim>\<open>None\<close>) before it looks at the mode. \<^verbatim>\<open>simu(50, 'Continued')\<close> in the
  session of the script at start-up, where \<^verbatim>\<open>prevFinalTime\<close> is 0, makes one engine call,
  \<^verbatim>\<open>model.reset()\<close>.
\<close>

theorem continued_at_start_resets_engine_counterexample:
  "prevFinalTime (script_session []) = 0
   \<and> fst (simu quiet_engine 50 ''Continued'' (script_session [])) = NoSimulation
   \<and> new_calls (script_session []) (snd (simu quiet_engine 50 ''Continued'' (script_session [])))
       = [Reset]"
  by (simp add: continued_at_start new_calls_def) (simp add: script_session_def)

text \<open>
  C2, amended. A call of \<^verbatim>\<open>simu\<close> in a continuation mode while \<^verbatim>\<open>prevFinalTime\<close> is 0
  fails: it ends with a missing-value abort, with \<^verbatim>\<open>Error: No simulation done\<close>, or with
  the exception of the load or of the reset. The only engine calls it makes are the load
  (when the model is not loaded) and the reset, so no \<^verbatim>\<open>set\<close> and no \<^verbatim>\<open>simulate\<close>;
  \<^verbatim>\<open>prevFinalTime\<close> and \<^verbatim>\<open>stateDict\<close> are unchanged. When no parameter is missing and
  neither load nor reset raises, it prints that the simulation is first to be done in mode
  init and that no simulation was done.
\<close>

theorem continued_before_initial_run:
  assumes "mode \<in> set [''Continued'', ''continued'', ''cont'']"
    and "prevFinalTime s = 0"
    and "simu E t mode s = (out, s')"
  shows "out \<in> {MissingValue, NoSimulation, Raised (EngineRaised Load), Raised (EngineRaised Reset)}
    \<and> set (new_calls s s') \<subseteq> {Load, Reset}
    \<and> prevFinalTime s' = prevFinalTime s \<and> stateDict s' = stateDict s
    \<and> (out = NoSimulation \<longrightarrow> printed s' = printed s @ [FirstInit, NoSimulationDone]
          \<and> new_calls s s' = loading s @ [Reset])
    \<and> (out = MissingValue \<longrightarrow>
          printed s' = printed s @ map ValueMissing (missing_keys (parDict s))
          \<and> new_calls s s' = [])
    \<and> (missing_keys (parDict s) = [] \<and> (\<forall>h. \<not> raises E h Load \<and> \<not> raises E h Reset)
          \<longrightarrow> out = NoSimulation)"
proof -
  have run: "run_mode E mode s4 = (None, s4\<lparr>printed := printed s4 @ [FirstInit]\<rparr>, False)"
    if "prevFinalTime s4 = prevFinalTime s" for s4
    using assms(1,2) that by (intro run_mode_first_init) simp_all
  note w = simu_without_run [of s E mode FirstInit t out s', OF run assms(3)]
  then have "out \<noteq> Done" "\<forall>k. out \<noteq> Raised (ReadRaised k)"
    by auto
  then have "prevFinalTime s' = prevFinalTime s" "stateDict s' = stateDict s"
    using simu_frame(6,7) [OF assms(3)] by simp_all
  then show ?thesis using w by simp
qed

theorem continued_before_initial_run_witness:
  "fst (simu quiet_engine 50 ''cont'' (script_session [(''G'', Num 10)])) = NoSimulation
   \<and> new_calls (script_session [(''G'', Num 10)])
        (snd (simu quiet_engine 50 ''cont'' (script_session [(''G'', Num 10)]))) = [Reset]
   \<and> prevFinalTime (snd (simu quiet_engine 50 ''cont'' (script_session [(''G'', Num 10)]))) = 0
   \<and> stateDict (snd (simu quiet_engine 50 ''cont'' (script_session [(''G'', Num 10)])))
        = [(''G'', Num 10)]
   \<and> printed (snd (simu quiet_engine 50 ''cont'' (script_session [(''G'', Num 10)])))
        = [FirstInit, NoSimulationDone]"
proof -
  let ?s = "script_session [(''G'', Num 10)]"
  let ?r = "simu quiet_engine 50 ''cont'' ?s"
  have m: "''cont'' \<in> set [''Continued'', ''continued'', ''cont'']" by simp
  have p: "prevFinalTime ?s = 0" by (simp add: script_session_def)
  have r: "?r = (fst ?r, snd ?r)" by simp
  have q: "missing_keys (parDict ?s) = []
      \<and> (\<forall>h. \<not> raises quiet_engine h Load \<and> \<not> raises quiet_engine h Reset)"
    by (simp add: missing_keys_def script_session_def script_parDict_def is_missing_def
        quiet_engine_def keys_def)
  have l: "loading ?s = []" "printed ?s = []" "stateDict ?s = [(''G'', Num 10)]"
    by (simp_all add: loading_def script_session_def initial_stateDict_def timeDiscreteStates_def)
  show ?thesis
    using continued_before_initial_run [OF m p r] q l p by simp
qed

section \<open>An unrecognized mode\<close>

lemma wrong_mode_missing_value:
  "simu quiet_engine 50 ''restart'' ((script_session [])\<lparr>parDict := [(''Vcc'', PyNone)]\<rparr>) =
     (MissingValue, (script_session [])\<lparr>parDict := [(''Vcc'', PyNone)], simulationTime := 50,
        printed := [ValueMissing ''Vcc'']\<rparr>)"
  by (simp add: simu_def script_session_def is_missing_def)

text \<open>
  C10, as the claim states it, fails: the check for missing values comes before the mode
  is looked at. With \<^verbatim>\<open>parDict = {'Vcc': None}\<close>, \<^verbatim>\<open>simu(50, 'restart')\<close> prints
  \<^verbatim>\<open>Value missing: Vcc\<close> and returns; it says nothing about the mode.
\<close>

theorem wrong_mode_not_reported_counterexample:
  "''restart'' \<notin> set [''Initial'', ''initial'', ''init'', ''Continued'', ''continued'', ''cont'']
   \<and> printed (snd (simu quiet_engine 50 ''restart''
         ((script_session [])\<lparr>parDict := [(''Vcc'', PyNone)]\<rparr>))) = [ValueMissing ''Vcc'']
   \<and> ModeNotCorrect \<notin> set (printed (snd (simu quiet_engine 50 ''restart''
         ((script_session [])\<lparr>parDict := [(''Vcc'', PyNone)]\<rparr>))))"
  by (simp add: wrong_mode_missing_value)

text \<open>
  C10, amended. A call of \<^verbatim>\<open>simu\<close> with a mode outside the six recognized spellings never
  invokes \<^verbatim>\<open>simulate\<close>, never completes a simulation, and leaves \<^verbatim>\<open>prevFinalTime\<close> and
  \<^verbatim>\<open>stateDict\<close> unchanged. When it gets as far as the mode (no parameter is missing, and
  neither load nor reset raises) it prints that the simulation mode is not correct and
  that no simulation was done.
\<close>

theorem unrecognized_mode:
  assumes "mode \<notin> set [''Initial'', ''initial'', ''init'']"
    and "mode \<notin> set [''Continued'', ''continued'', ''cont'']"
    and "simu E t mode s = (out, s')"
  shows "(\<forall>c\<in>set (new_calls s s'). \<not> is_simulate c)
    \<and> prevFinalTime s' = prevFinalTime s \<and> stateDict s' = stateDict s
    \<and> out \<noteq> Done
    \<and> (out = NoSimulation \<longrightarrow> printed s' = printed s @ [ModeNotCorrect, NoSimulationDone])
    \<and> (missing_keys (parDict s) = [] \<and> (\<forall>h. \<not> raises E h Load \<and> \<not> raises E h Reset)
          \<longrightarrow> out = NoSimulation)"
proof -
  have run: "run_mode E mode s4 = (None, s4\<lparr>printed := printed s4 @ [ModeNotCorrect]\<rparr>, False)"
    if "prevFinalTime s4 = prevFinalTime s" for s4
    using assms(1,2) by (rule run_mode_not_correct)
  note w = simu_without_run [of s E mode ModeNotCorrect t out s', OF run assms(3)]
  then have o: "out \<noteq> Done" "\<forall>k. out \<noteq> Raised (ReadRaised k)"
    by auto
  then have k: "prevFinalTime s' = prevFinalTime s" "stateDict s' = stateDict s"
    using simu_frame(6,7) [OF assms(3)] by simp_all
  have "\<forall>c\<in>set (new_calls s s'). \<not> is_simulate c"
    using w by (auto simp: is_simulate_def)
  then show ?thesis using w o k by simp
qed

theorem unrecognized_mode_witness:
  "filter is_simulate (new_calls (script_session [(''G'', Num 10)])
        (snd (simu quiet_engine 50 ''restart'' (script_session [(''G'', Num 10)])))) = []
   \<and> fst (simu quiet_engine 50 ''restart'' (script_session [(''G'', Num 10)])) = NoSimulation
   \<and> prevFinalTime (snd (simu quiet_engine 50 ''restart'' (script_session [(''G'', Num 10)]))) = 0
   \<and> stateDict (snd (simu quiet_engine 50 ''restart'' (script_session [(''G'', Num 10)])))
        = [(''G'', Num 10)]
   \<and> printed (snd (simu quiet_engine 50 ''restart'' (script_session [(''G'', Num 10)])))
        = [ModeNotCorrect, NoSimulationDone]"
proof -
  let ?s = "script_session [(''G'', Num 10)]"
  let ?r = "simu quiet_engine 50 ''restart'' ?s"
  have m: "''restart'' \<notin> set [''Initial'', ''initial'', ''init'']"
      "''restart'' \<notin> set [''Continued'', ''continued'', ''cont'']" by simp_all
  have r: "?r = (fst ?r, snd ?r)" by simp
  have q: "missing_keys (parDict ?s) = []
      \<and> (\<forall>h. \<not> raises quiet_engine h Load \<and> \<not> raises quiet_engine h Reset)"
    by (simp add: missing_keys_def script_session_def script_parDict_def is_missing_def
        quiet_engine_def keys_def)
  have l: "prevFinalTime ?s = 0" "printed ?s = []" "stateDict ?s = [(''G'', Num 10)]"
    by (simp_all add: script_session_def initial_stateDict_def timeDiscreteStates_def)
  show ?thesis
    using unrecognized_mode [OF m r] q l by (simp add: filter_empty_conv)
qed

section \<open>What a failed run leaves\<close>

text \<open>An engine whose \<^verbatim>\<open>simulate\<close> raises.\<close>

lemma simulate_raises_run:
  "simu (quiet_engine\<lparr>raises := (\<lambda>h c. is_simulate c)\<rparr>) 50 ''init''
      ((script_session [(''G'', Num 10)])\<lparr>parDict := [(''Vcc'', Num 1)]\<rparr>) =
     (Raised (EngineRaised (Simulate None 50)),
      (script_session [(''G'', Num 10)])\<lparr>parDict := [(''Vcc'', Num 1)], simulationTime := 50,
        calls := [Reset, Set ''Vcc'' (Num 1), Simulate None 50]\<rparr>)"
  by (simp add: simu_def load_model_def engine_do_def run_mode_def quiet_engine_def
      script_session_def script_parLocation_def is_missing_def is_simulate_def getitem_def)

text \<open>A first run in which \<^verbatim>\<open>model.get\<close> raises for the second state.\<close>

lemma state_read_raises_run:
  "simu (quiet_engine\<lparr>get_value := (\<lambda>h name. if name = ''L'' then None else Some (Num 1))\<rparr>)
      50 ''init''
      ((script_session [(''G'', Num 10), (''L'', Num 2)])\<lparr>parDict := [(''Vcc'', Num 1)]\<rparr>) =
     (Raised (ReadRaised ''L''),
      (script_session [])\<lparr>parDict := [(''Vcc'', Num 1)], simulationTime := 50,
        stateDict := [(''G'', Num 1), (''L'', Num 2)],
        calls := [Reset, Set ''Vcc'' (Num 1), Simulate None 50]\<rparr>)"
  by (simp add: simu_def load_model_def engine_do_def run_mode_def quiet_engine_def
      script_session_def script_parLocation_def is_missing_def getitem_def keys_def
      store_results_def initial_stateDict_def timeDiscreteStates_def)

text \<open>
  C8, as the claim states it, fails, in two ways. The first statement of \<^verbatim>\<open>simu\<close>
  transfers its argument to the global \<^verbatim>\<open>simulationTime\<close>, before any check:
  \<^verbatim>\<open>simu(50, 'Continued')\<close> at start-up fails (no simulation is done) and leaves
  \<^verbatim>\<open>simulationTime\<close> at 50, where it was 1000. And the states are stored one by one: when
  \<^verbatim>\<open>model.get\<close> raises for the second state \<^verbatim>\<open>L\<close>, the call fails and the first state
  \<^verbatim>\<open>G\<close> already holds its new value.
\<close>

theorem failed_run_changes_session_counterexample:
  "fst (simu quiet_engine 50 ''Continued'' (script_session [])) = NoSimulation
   \<and> simulationTime (script_session []) = 1000
   \<and> simulationTime (snd (simu quiet_engine 50 ''Continued'' (script_session []))) = 50
   \<and> fst (simu (quiet_engine\<lparr>get_value := (\<lambda>h name. if name = ''L'' then None else Some (Num 1))\<rparr>)
        50 ''init''
        ((script_session [(''G'', Num 10), (''L'', Num 2)])\<lparr>parDict := [(''Vcc'', Num 1)]\<rparr>))
       = Raised (ReadRaised ''L'')
   \<and> stateDict ((script_session [(''G'', Num 10), (''L'', Num 2)])\<lparr>parDict := [(''Vcc'', Num 1)]\<rparr>)
       = [(''G'', Num 10), (''L'', Num 2)]
   \<and> stateDict (snd (simu (quiet_engine\<lparr>get_value := (\<lambda>h name. if name = ''L'' then None else Some (Num 1))\<rparr>)
        50 ''init''
        ((script_session [(''G'', Num 10), (''L'', Num 2)])\<lparr>parDict := [(''Vcc'', Num 1)]\<rparr>)))
       = [(''G'', Num 1), (''L'', Num 2)]"
  unfolding state_read_raises_run continued_at_start
  by (simp add: script_session_def initial_stateDict_def timeDiscreteStates_def)

text \<open>
  C8, amended. Every call of \<^verbatim>\<open>simu\<close> that fails, in whatever way (the missing-value
  abort, no simulation done for a continuation before any run or an unrecognized mode,
  an exception of the load, the reset, a \<^verbatim>\<open>set\<close>, \<^verbatim>\<open>simulate\<close>, the replay of the
  diagrams or \<^verbatim>\<open>model.get\<close>), leaves \<^verbatim>\<open>prevFinalTime\<close> as it was and the state dictionary
  with the keys it had. Unless the failure is an exception of \<^verbatim>\<open>model.get\<close> while the
  states are stored, the state dictionary is left as it was, values included.
  \<^verbatim>\<open>simulationTime\<close> is the duration given to the failed call.
\<close>

theorem failed_run_keeps_continuation_state:
  assumes "simu E t mode s = (out, s')"
    and "out \<noteq> Done"
  shows "prevFinalTime s' = prevFinalTime s
    \<and> keys (stateDict s') = keys (stateDict s)
    \<and> ((\<forall>k. out \<noteq> Raised (ReadRaised k)) \<longrightarrow> stateDict s' = stateDict s)
    \<and> simulationTime s' = t"
  using simu_frame(1,5,6,7) [OF assms(1)] assms(2) by simp


theorem failed_run_keeps_continuation_state_witness:
  "prevFinalTime (snd (simu (quiet_engine\<lparr>raises := (\<lambda>h c. is_simulate c)\<rparr>) 50 ''init''
      ((script_session [(''G'', Num 10)])\<lparr>parDict := [(''Vcc'', Num 1)]\<rparr>))) = 0
   \<and> stateDict (snd (simu (quiet_engine\<lparr>raises := (\<lambda>h c. is_simulate c)\<rparr>) 50 ''init''
      ((script_session [(''G'', Num 10)])\<lparr>parDict := [(''Vcc'', Num 1)]\<rparr>))) = [(''G'', Num 10)]
   \<and> simulationTime (snd (simu (quiet_engine\<lparr>raises := (\<lambda>h c. is_simulate c)\<rparr>) 50 ''init''
      ((script_session [(''G'', Num 10)])\<lparr>parDict := [(''Vcc'', Num 1)]\<rparr>))) = 50
   \<and> prevFinalTime (snd (simu
        (quiet_engine\<lparr>get_value := (\<lambda>h name. if name = ''L'' then None else Some (Num 1))\<rparr>)
        50 ''init''
        ((script_session [(''G'', Num 10), (''L'', Num 2)])\<lparr>parDict := [(''Vcc'', Num 1)]\<rparr>))) = 0
   \<and> keys (stateDict (snd (simu
        (quiet_engine\<lparr>get_value := (\<lambda>h name. if name = ''L'' then None else Some (Num 1))\<rparr>)
        50 ''init''
        ((script_session [(''G'', Num 10), (''L'', Num 2)])\<lparr>parDict := [(''Vcc'', Num 1)]\<rparr>))))
       = [''G'', ''L'']"
proof -
  let ?E = "quiet_engine\<lparr>raises := (\<lambda>h c. is_simulate c)\<rparr>"
  let ?s = "(script_session [(''G'', Num 10)])\<lparr>parDict := [(''Vcc'', Num 1)]\<rparr>"
  let ?r = "simu ?E 50 ''init'' ?s"
  let ?F = "quiet_engine\<lparr>get_value := (\<lambda>h name. if name = ''L'' then None else Some (Num 1))\<rparr>"
  let ?u = "(script_session [(''G'', Num 10), (''L'', Num 2)])\<lparr>parDict := [(''Vcc'', Num 1)]\<rparr>"
  let ?q = "simu ?F 50 ''init'' ?u"
  have r: "?r = (fst ?r, snd ?r)" and q: "?q = (fst ?q, snd ?q)" by simp_all
  have o: "fst ?r \<noteq> Done" "\<forall>k. fst ?r \<noteq> Raised (ReadRaised k)"
    by (simp_all add: simulate_raises_run)
  have p: "fst ?q \<noteq> Done"
    by (simp add: state_read_raises_run)
  have l: "prevFinalTime ?s = 0" "stateDict ?s = [(''G'', Num 10)]"
      "prevFinalTime ?u = 0" "keys (stateDict ?u) = [''G'', ''L'']"
    by (simp_all add: script_session_def initial_stateDict_def timeDiscreteStates_def keys_def)
  show ?thesis
    using failed_run_keeps_continuation_state [OF r o(1)] failed_run_keeps_continuation_state [OF q p] o(2) l
    by simp
qed

section \<open>What a successful run stores\<close>

lemma keys_initial_stateDict: "keys (initial_stateDict states_list) = keys states_list"
  by (simp add: initial_stateDict_def timeDiscreteStates_def)

text \<open>
  C9. The keys of the state dictionary at start-up are the names of
  \<^verbatim>\<open>model.get_states_list()\<close>, and no call of \<^verbatim>\<open>simu\<close>, whatever its outcome, adds or
  removes a key. After a successful run every state name of the dictionary holds the
  value the engine reads for it after the run's calls, and \<^verbatim>\<open>prevFinalTime\<close> is the
  engine's time after them.
\<close>

theorem successful_run_captures_states:
  "keys (initial_stateDict states_list) = keys states_list
   \<and> keys (stateDict (snd (simu E t mode s))) = keys (stateDict s)
   \<and> (fst (simu E t mode s) = Done \<longrightarrow>
        (\<forall>k\<in>set (keys (stateDict s)).
           \<exists>v. getitem (stateDict (snd (simu E t mode s))) k = Some v
              \<and> get_value E (calls (snd (simu E t mode s))) k = Some v)
        \<and> prevFinalTime (snd (simu E t mode s)) = time_of E (calls (snd (simu E t mode s))))"
proof -
  obtain out s' where r: "simu E t mode s = (out, s')"
    by (cases "simu E t mode s")
  have k: "keys (stateDict s') = keys (stateDict s)"
    using simu_frame(5) [OF r] .
  have d: "(\<forall>k\<in>set (keys (stateDict s)).
           \<exists>v. getitem (stateDict s') k = Some v \<and> get_value E (calls s') k = Some v)
        \<and> prevFinalTime s' = time_of E (calls s')" if "out = Done"
    using r
  proof (cases rule: simu_cases)
    case (stored s3 s4 s5)
    have "stateDict s5 = stateDict s"
      using load_model_kept(1) [OF stored(2)] engine_do_kept(1) [OF stored(3)]
        run_mode_kept(1) [OF stored(4)]
      by (simp add: globals_kept_def)
    then show ?thesis
      using store_results_eq(1,11,12) [OF stored(5)] that by simp
  qed (use that in simp_all)
  show ?thesis using r k d by (simp add: keys_initial_stateDict)
qed

text \<open>A first run of 100 hours with one parameter and two states.\<close>

lemma initial_run:
  "simu quiet_engine 100 ''Initial''
      ((script_session [(''N'', Num 50), (''c[2]'', Num 3)])\<lparr>parDict := [(''Vcc'', Num 1)]\<rparr>) =
     (Done,
      (script_session [])\<lparr>parDict := [(''Vcc'', Num 1)], simulationTime := 100,
        stateDict := [(''N'', Num 100), (''c[2]'', Num 100)], prevFinalTime := 100,
        calls := [Reset, Set ''Vcc'' (Num 1), Simulate None 100]\<rparr>)"
  by (simp add: simu_def load_model_def engine_do_def run_mode_def quiet_engine_def
      script_session_def script_parLocation_def is_missing_def getitem_def keys_def
      store_results_def initial_stateDict_def timeDiscreteStates_def last_final_time_def)

theorem successful_run_captures_states_witness:
  "keys (initial_stateDict [(''N'', Num 50), (''c[2]'', Num 3)]) = [''N'', ''c[2]'']
   \<and> fst (simu quiet_engine 100 ''Initial''
      ((script_session [(''N'', Num 50), (''c[2]'', Num 3)])\<lparr>parDict := [(''Vcc'', Num 1)]\<rparr>)) = Done
   \<and> stateDict (snd (simu quiet_engine 100 ''Initial''
      ((script_session [(''N'', Num 50), (''c[2]'', Num 3)])\<lparr>parDict := [(''Vcc'', Num 1)]\<rparr>)))
       = [(''N'', Num 100), (''c[2]'', Num 100)]
   \<and> get_value quiet_engine [Reset, Set ''Vcc'' (Num 1), Simulate None 100] ''N'' = Some (Num 100)
   \<and> prevFinalTime (snd (simu quiet_engine 100 ''Initial''
      ((script_session [(''N'', Num 50), (''c[2]'', Num 3)])\<lparr>parDict := [(''Vcc'', Num 1)]\<rparr>))) = 100
   \<and> time_of quiet_engine [Reset, Set ''Vcc'' (Num 1), Simulate None 100] = 100"
  using successful_run_captures_states [of "[(''N'', Num 50), (''c[2]'', Num 3)]" quiet_engine 100
      "''Initial''" "(script_session [(''N'', Num 50), (''c[2]'', Num 3)])\<lparr>parDict := [(''Vcc'', Num 1)]\<rparr>"]
  unfolding initial_run
  by (simp add: keys_def quiet_engine_def last_final_time_def
      initial_stateDict_def timeDiscreteStates_def script_session_def)

section \<open>Missing parameter values\<close>

text \<open>
  A parameter that holds the object \<^verbatim>\<open>np.nan\<close>, \<^verbatim>\<open>None\<close> or the empty string stops the call
  before the engine is touched, and its name is printed.
\<close>

lemma missing_value_abort_makes_no_call:
  assumes "(key, v) \<in> set (parDict s)" "v = NpNan \<or> v = PyNone \<or> v = Str []"
    and "simu E t mode s = (out, s')"
  shows "out = MissingValue" "calls s' = calls s" "model_loaded s' = model_loaded s"
    "ValueMissing key \<in> set (printed s')"
proof -
  have m: "is_missing v" using assms(2) by (simp add: is_missing_def)
  note a = missing_value_aborts(1) [OF assms(1) m, of E t mode]
    missing_value_aborts(2) [OF assms(1) m]
  show "out = MissingValue" "calls s' = calls s" "model_loaded s' = model_loaded s"
    "ValueMissing key \<in> set (printed s')"
    using a assms(3) by auto
qed

text \<open>
  C7 does not hold for every NaN. The test \<^verbatim>\<open>parDict[key] in [np.nan, None, '']\<close> finds the
  object \<^verbatim>\<open>np.nan\<close> by identity; a NaN that is another object (\<^verbatim>\<open>float('nan')\<close>,
  \<^verbatim>\<open>math.nan\<close>, a computed value) is neither identical nor equal to any element of the
  list. With \<^verbatim>\<open>parDict = {'Vcc': float('nan')}\<close> nothing is reported as missing, and
  \<^verbatim>\<open>simu(100, 'Initial')\<close> resets the engine, sets \<^verbatim>\<open>Vcc\<close> to the NaN, simulates and stores
  the results.
\<close>

theorem nan_parameter_reaches_engine:
  "missing_keys [(''Vcc'', OtherNan)] = []
   \<and> simu quiet_engine 100 ''Initial''
        ((script_session [(''N'', Num 50)])\<lparr>parDict := [(''Vcc'', OtherNan)]\<rparr>) =
      (Done,
       (script_session [])\<lparr>parDict := [(''Vcc'', OtherNan)], simulationTime := 100,
         stateDict := [(''N'', Num 100)], prevFinalTime := 100,
         calls := [Reset, Set ''Vcc'' OtherNan, Simulate None 100], printed := []\<rparr>)"
  by (simp add: simu_def load_model_def engine_do_def run_mode_def quiet_engine_def
      script_session_def script_parLocation_def is_missing_def getitem_def keys_def
      store_results_def initial_stateDict_def timeDiscreteStates_def last_final_time_def
      missing_keys_def)

section \<open>The engine calls of a run\<close>




lemma set_states_complete:
  assumes "set_states E sd s = (None, s')"
    and "\<forall>k\<in>set (keys sd). state_start_name k \<noteq> Unsupported"
  shows "length (state_sets sd) = length sd"
  using assms
proof (induction sd arbitrary: s)
  case Nil
  then show ?case by simp
next
  case (Cons a sd)
  obtain k w where a: "a = (k, w)" by (cases a)
  show ?case
  proof (cases "state_start_name k")
    case (Location location)
    obtain r1 s1 where e: "engine_do E (Set location w) s = (r1, s1)"
      by (cases "engine_do E (Set location w) s")
    then have "set_states E sd s1 = (None, s')"
      using Cons.prems(1) a Location by (cases r1) simp_all
    moreover have "\<forall>k\<in>set (keys sd). state_start_name k \<noteq> Unsupported"
      using Cons.prems(2) a by (simp add: keys_Cons)
    ultimately have "length (state_sets sd) = length sd"
      by (rule Cons.IH)
    then show ?thesis using a Location by simp
  next
    case Unsupported
    then show ?thesis using Cons.prems(2) a by (simp add: keys_Cons)
  next
    case BadIndex
    then show ?thesis using Cons.prems(1) a by simp
  qed
qed

text \<open>
  What \<open>parameter_sets\<close> and \<open>state_sets\<close> hold when they are as long as the dictionary:
  one \<^verbatim>\<open>set\<close> for every entry, in order, with the entry's value.
\<close>

lemma parameter_sets_nth:
  assumes "length (parameter_sets pl pd) = length pd" "i < length pd"
  shows "\<exists>location. getitem pl (fst (pd ! i)) = Some location
    \<and> parameter_sets pl pd ! i = Set location (snd (pd ! i))"
  using assms
proof (induction pd arbitrary: i)
  case Nil
  then show ?case by simp
next
  case (Cons a pd)
  obtain k w where a: "a = (k, w)" by (cases a)
  then obtain location where l: "getitem pl k = Some location"
    using Cons.prems(1) by (cases "getitem pl k") auto
  then have "length (parameter_sets pl pd) = length pd"
    using Cons.prems(1) a by simp
  then show ?case using Cons.IH [of "i - 1"] Cons.prems(2) a l
    by (cases i) auto
qed

lemma state_sets_nth:
  assumes "length (state_sets sd) = length sd" "i < length sd"
  shows "\<exists>location. state_start_name (fst (sd ! i)) = Location location
    \<and> state_sets sd ! i = Set location (snd (sd ! i))"
  using assms
proof (induction sd arbitrary: i)
  case Nil
  then show ?case by simp
next
  case (Cons a sd)
  obtain k w where a: "a = (k, w)" by (cases a)
  then obtain location where l: "state_start_name k = Location location"
    using Cons.prems(1) by (cases "state_start_name k") auto
  then have "length (state_sets sd) = length sd"
    using Cons.prems(1) a by simp
  then show ?case using Cons.IH [of "i - 1"] Cons.prems(2) a l
    by (cases i) auto
qed



lemma run_mode_states_complete:
  assumes "run_mode E mode s = (r, s', True)"
    and "mode \<notin> set [''Initial'', ''initial'', ''init'']"
    and "\<forall>k\<in>set (keys (stateDict s)). state_start_name k \<noteq> Unsupported"
  shows "length (state_sets (stateDict s)) = length (stateDict s)"
proof -
  obtain r1 s1 where p: "set_parameters E (parDict s) s = (r1, s1)"
    by (cases "set_parameters E (parDict s) s")
  obtain r3 s3 where st: "set_states E (stateDict s1) s1 = (r3, s3)"
    by (cases "set_states E (stateDict s1) s1")
  obtain r4 s4 where c: "engine_do E
      (Simulate (Some (prevFinalTime s3)) (prevFinalTime s3 + simulationTime s3)) s3 = (r4, s4)"
    by (cases "engine_do E
      (Simulate (Some (prevFinalTime s3)) (prevFinalTime s3 + simulationTime s3)) s3")
  have "r3 = None"
    using assms(1,2) p st c by (auto simp: run_mode_def split: if_splits option.splits)
  moreover have "stateDict s1 = stateDict s"
    using set_parameters_kept(1) [OF p] by (simp add: globals_kept_def)
  ultimately show ?thesis
    using set_states_complete [of E "stateDict s" s1 s3] st assms(3) by simp
qed



text \<open>
  A continuation from time 100 for 50 hours, where the first state has an index of four
  digits.
\<close>

lemma continued_run_skips_states:
  "simu quiet_engine 50 ''Continued''
      ((script_session [(''c[1000]'', Num 7), (''G'', Num 10)])
         \<lparr>parDict := [(''Vcc'', Num 1)], prevFinalTime := 100\<rparr>) =
     (Done,
      (script_session [])\<lparr>parDict := [(''Vcc'', Num 1)], simulationTime := 50,
        stateDict := [(''c[1000]'', Num 150), (''G'', Num 150)], prevFinalTime := 150,
        calls := [Reset, Set ''Vcc'' (Num 1), Simulate (Some 100) 150],
        printed := [TooManyStates]\<rparr>)"
  by (simp add: simu_def load_model_def engine_do_def run_mode_def quiet_engine_def
      script_session_def script_parLocation_def is_missing_def getitem_def keys_def
      store_results_def initial_stateDict_def timeDiscreteStates_def last_final_time_def
      state_start_name_def char_from_end_def)

text \<open>
  C6, as the claim states it, fails for the continuation: the loop over the states is
  left at the first name it cannot translate, and the simulation is done all the same.
  With the states \<^verbatim>\<open>c[1000]\<close> and \<^verbatim>\<open>G\<close> captured, the run succeeds and neither state has
  been pushed: the only \<^verbatim>\<open>set\<close> is that of the parameter.
\<close>

theorem continued_run_pushes_no_state_counterexample:
  "fst (simu quiet_engine 50 ''Continued''
      ((script_session [(''c[1000]'', Num 7), (''G'', Num 10)])
         \<lparr>parDict := [(''Vcc'', Num 1)], prevFinalTime := 100\<rparr>)) = Done
   \<and> stateDict ((script_session [(''c[1000]'', Num 7), (''G'', Num 10)])
         \<lparr>parDict := [(''Vcc'', Num 1)], prevFinalTime := 100\<rparr>)
       = [(''c[1000]'', Num 7), (''G'', Num 10)]
   \<and> calls (snd (simu quiet_engine 50 ''Continued''
      ((script_session [(''c[1000]'', Num 7), (''G'', Num 10)])
         \<lparr>parDict := [(''Vcc'', Num 1)], prevFinalTime := 100\<rparr>)))
       = [Reset, Set ''Vcc'' (Num 1), Simulate (Some 100) 150]"
  unfolding continued_run_skips_states
  by (simp add: script_session_def initial_stateDict_def timeDiscreteStates_def)

text \<open>The continuation of the first run: from 100 to 150, both states pushed.\<close>

lemma continued_run:
  "simu quiet_engine 50 ''Continued''
      ((script_session [(''N'', Num 100), (''c[2]'', Num 100)])
         \<lparr>parDict := [(''Vcc'', Num 1)], prevFinalTime := 100\<rparr>) =
     (Done,
      (script_session [])\<lparr>parDict := [(''Vcc'', Num 1)], simulationTime := 50,
        stateDict := [(''N'', Num 150), (''c[2]'', Num 150)], prevFinalTime := 150,
        calls := [Reset, Set ''Vcc'' (Num 1), Set ''N_start'' (Num 100),
                  Set ''c_start[2]'' (Num 100), Simulate (Some 100) 150]\<rparr>)"
  by (simp add: simu_def load_model_def engine_do_def run_mode_def quiet_engine_def
      script_session_def script_parLocation_def is_missing_def getitem_def keys_def
      store_results_def initial_stateDict_def timeDiscreteStates_def last_final_time_def
      state_start_name_def char_from_end_def tail_slice_def head_slice_def)

text \<open>
  C6, amended. In a successful run every entry of the parameter store has been pushed
  (\<open>parameter_sets\<close> has the length of \<^verbatim>\<open>parDict\<close>). In the initial modes the calls of the
  run are the load (if the model was not loaded), the reset, the parameters and
  \<^verbatim>\<open>simulate\<close> without a start time and with the duration as final time: the interval
  from 0 to the duration. In any other mode the mode is a continuation mode,
  \<^verbatim>\<open>prevFinalTime\<close> is not 0, and the calls are the load, the reset, the parameters, the
  captured states in order up to the first name without a translation, and \<^verbatim>\<open>simulate\<close>
  over the interval from \<^verbatim>\<open>prevFinalTime\<close> to \<^verbatim>\<open>prevFinalTime\<close> plus the duration; when
  no state name is unsupported, every captured state has been pushed.
\<close>

theorem successful_run_engine_calls:
  assumes "simu E t mode s = (Done, s')"
  shows "length (parameter_sets (parLocation s) (parDict s)) = length (parDict s)
    \<and> (mode \<in> set [''Initial'', ''initial'', ''init''] \<longrightarrow>
          new_calls s s' = loading s @ [Reset] @ parameter_sets (parLocation s) (parDict s)
            @ [Simulate None t]
          \<and> simulated_interval (last (new_calls s s')) = Some (0, t))
    \<and> (mode \<notin> set [''Initial'', ''initial'', ''init''] \<longrightarrow>
          mode \<in> set [''Continued'', ''continued'', ''cont''] \<and> prevFinalTime s \<noteq> 0
          \<and> new_calls s s' = loading s @ [Reset] @ parameter_sets (parLocation s) (parDict s)
            @ state_sets (stateDict s)
            @ [Simulate (Some (prevFinalTime s)) (prevFinalTime s + t)]
          \<and> simulated_interval (last (new_calls s s'))
              = Some (prevFinalTime s, prevFinalTime s + t)
          \<and> ((\<forall>k\<in>set (keys (stateDict s)). state_start_name k \<noteq> Unsupported) \<longrightarrow>
                length (state_sets (stateDict s)) = length (stateDict s)))"
  using assms
proof (cases rule: simu_cases)
  case (stored s3 s4 s5)
  have k3: "globals_kept (s\<lparr>simulationTime := t\<rparr>) s3" "calls s3 = calls s @ loading s"
    using load_model_kept(1,2) [OF stored(2)] by (simp_all add: loading_def)
  have k4: "globals_kept s3 s4" "calls s4 = calls s3 @ [Reset]"
    using engine_do_kept(1,2) [OF stored(3)] .
  have g: "parDict s4 = parDict s" "parLocation s4 = parLocation s" "stateDict s4 = stateDict s"
      "prevFinalTime s4 = prevFinalTime s" "simulationTime s4 = t"
    using k3(1) k4(1) by (simp_all add: globals_kept_def)
  have c: "calls s' = calls s5"
    using store_results_eq(1) [OF stored(5)] .
  note d = run_mode_done [OF stored(4)]
  have 1: "length (parameter_sets (parLocation s) (parDict s)) = length (parDict s)"
    using d(2) g by simp
  have 2: "new_calls s s' = loading s @ [Reset] @ parameter_sets (parLocation s) (parDict s)
            @ [Simulate None t]" if "mode \<in> set [''Initial'', ''initial'', ''init'']"
    using d(3) [OF that] g c k3(2) k4(2) by (simp add: new_calls_def)
  have 3: "mode \<in> set [''Continued'', ''continued'', ''cont''] \<and> prevFinalTime s \<noteq> 0
          \<and> new_calls s s' = loading s @ [Reset] @ parameter_sets (parLocation s) (parDict s)
            @ state_sets (stateDict s)
            @ [Simulate (Some (prevFinalTime s)) (prevFinalTime s + t)]"
    if "mode \<notin> set [''Initial'', ''initial'', ''init'']"
    using d(4) [OF that] g c k3(2) k4(2) by (simp add: new_calls_def)
  have 4: "length (state_sets (stateDict s)) = length (stateDict s)"
    if "mode \<notin> set [''Initial'', ''initial'', ''init'']"
      "\<forall>k\<in>set (keys (stateDict s)). state_start_name k \<noteq> Unsupported"
    using run_mode_states_complete [OF stored(4) that(1)] that(2) g by simp
  have 5: "simulated_interval (last (new_calls s s')) = Some (0, t)"
    if "mode \<in> set [''Initial'', ''initial'', ''init'']"
    using 2 [OF that] by (simp add: simulated_interval_def)
  have 6: "simulated_interval (last (new_calls s s'))
              = Some (prevFinalTime s, prevFinalTime s + t)"
    if "mode \<notin> set [''Initial'', ''initial'', ''init'']"
    using 3 [OF that] by (simp add: simulated_interval_def)
  show ?thesis using 1 2 3 4 5 6 by blast
qed simp_all


theorem successful_run_engine_calls_witness:
  "fst (simu quiet_engine 100 ''Initial''
      ((script_session [(''N'', Num 50), (''c[2]'', Num 3)])\<lparr>parDict := [(''Vcc'', Num 1)]\<rparr>)) = Done
   \<and> new_calls ((script_session [(''N'', Num 50), (''c[2]'', Num 3)])\<lparr>parDict := [(''Vcc'', Num 1)]\<rparr>)
       (snd (simu quiet_engine 100 ''Initial''
         ((script_session [(''N'', Num 50), (''c[2]'', Num 3)])\<lparr>parDict := [(''Vcc'', Num 1)]\<rparr>)))
     = [Reset, Set ''Vcc'' (Num 1), Simulate None 100]
   \<and> simulated_interval (last (new_calls
       ((script_session [(''N'', Num 50), (''c[2]'', Num 3)])\<lparr>parDict := [(''Vcc'', Num 1)]\<rparr>)
       (snd (simu quiet_engine 100 ''Initial''
         ((script_session [(''N'', Num 50), (''c[2]'', Num 3)])\<lparr>parDict := [(''Vcc'', Num 1)]\<rparr>)))))
     = Some (0, 100)
   \<and> fst (simu quiet_engine 50 ''Continued''
      ((script_session [(''N'', Num 100), (''c[2]'', Num 100)])
         \<lparr>parDict := [(''Vcc'', Num 1)], prevFinalTime := 100\<rparr>)) = Done
   \<and> new_calls ((script_session [(''N'', Num 100), (''c[2]'', Num 100)])
         \<lparr>parDict := [(''Vcc'', Num 1)], prevFinalTime := 100\<rparr>)
       (snd (simu quiet_engine 50 ''Continued''
          ((script_session [(''N'', Num 100), (''c[2]'', Num 100)])
             \<lparr>parDict := [(''Vcc'', Num 1)], prevFinalTime := 100\<rparr>)))
     = [Reset, Set ''Vcc'' (Num 1), Set ''N_start'' (Num 100), Set ''c_start[2]'' (Num 100),
        Simulate (Some 100) 150]
   \<and> simulated_interval (last (new_calls ((script_session [(''N'', Num 100), (''c[2]'', Num 100)])
         \<lparr>parDict := [(''Vcc'', Num 1)], prevFinalTime := 100\<rparr>)
       (snd (simu quiet_engine 50 ''Continued''
          ((script_session [(''N'', Num 100), (''c[2]'', Num 100)])
             \<lparr>parDict := [(''Vcc'', Num 1)], prevFinalTime := 100\<rparr>)))))
     = Some (100, 150)"
proof -
  let ?s = "(script_session [(''N'', Num 50), (''c[2]'', Num 3)])\<lparr>parDict := [(''Vcc'', Num 1)]\<rparr>"
  let ?r = "simu quiet_engine 100 ''Initial'' ?s"
  let ?u = "(script_session [(''N'', Num 100), (''c[2]'', Num 100)])
         \<lparr>parDict := [(''Vcc'', Num 1)], prevFinalTime := 100\<rparr>"
  let ?q = "simu quiet_engine 50 ''Continued'' ?u"
  have r: "?r = (Done, snd ?r)" by (simp add: initial_run)
  have q: "?q = (Done, snd ?q)" by (simp add: continued_run)
  have m: "''Initial'' \<in> set [''Initial'', ''initial'', ''init'']"
      "''Continued'' \<notin> set [''Initial'', ''initial'', ''init'']" by simp_all
  have l: "loading ?s = []" "loading ?u = []"
      "parameter_sets (parLocation ?s) (parDict ?s) = [Set ''Vcc'' (Num 1)]"
      "parameter_sets (parLocation ?u) (parDict ?u) = [Set ''Vcc'' (Num 1)]"
      "state_sets (stateDict ?u) = [Set ''N_start'' (Num 100), Set ''c_start[2]'' (Num 100)]"
      "prevFinalTime ?u = 100"
    by (simp_all add: loading_def script_session_def script_parLocation_def getitem_def
        initial_stateDict_def timeDiscreteStates_def state_start_name_def char_from_end_def
        tail_slice_def head_slice_def)
  have a: "fst ?r = Done" "fst ?q = Done" using r q by (metis fst_conv)+
  show ?thesis
    using successful_run_engine_calls [OF r] successful_run_engine_calls [OF q] m a
    unfolding l by (simp add: simulated_interval_def)
qed

section \<open>A state name without a translation\<close>



text \<open>
  Which names the loop cannot translate. It stops with its message on a name of five or
  more characters that ends in a closing bracket and has no opening bracket two, three
  or four characters before it; it raises \<^verbatim>\<open>IndexError\<close> on the empty name and on a
  shorter name that ends in a closing bracket without such an opening bracket.
\<close>

lemma unsupported_iff:
  "state_start_name key = Unsupported \<longleftrightarrow>
     5 \<le> length key \<and> key ! (length key - 1) = CHR '']''
     \<and> key ! (length key - 3) \<noteq> CHR ''['' \<and> key ! (length key - 4) \<noteq> CHR ''[''
     \<and> key ! (length key - 5) \<noteq> CHR ''[''"
  by (auto simp: state_start_name_def char_from_end_def split: option.splits if_splits)

lemma bad_index_iff:
  "state_start_name key = BadIndex \<longleftrightarrow>
     key = [] \<or> (key ! (length key - 1) = CHR '']'' \<and> length key < 5
       \<and> (length key < 3 \<or> key ! (length key - 3) \<noteq> CHR ''['')
       \<and> (length key < 4 \<or> key ! (length key - 4) \<noteq> CHR ''[''))"
  by (cases "key = []")
     (auto simp: state_start_name_def char_from_end_def Suc_le_eq split: option.splits if_splits)








end
